theory Spec2Isabelle
  imports Complex_Main
begin

section \<open>Errors\<close>

text \<open>
  The Python exceptions that the modelled code can raise. A function that can raise
  returns \<open>py_error + 'a\<close>, with \<open>Inl\<close> for the exception.
\<close>

datatype py_error = ValueError | ZeroDivisionError | IndexError | KeyError
  | RuntimeError | TypeError

section \<open>The thread splitter\<close>

text \<open>
  \<^verbatim>\<open>splitted[-1].append(elem)\<close>: append to the last component. The accumulator starts
  as \<^verbatim>\<open>[[]]\<close> and only grows, so the empty case (an IndexError in Python) is never
  reached; see \<open>split_loop_nonempty\<close>.
\<close>

fun append_last :: "'a list list \<Rightarrow> 'a \<Rightarrow> 'a list list" where
  "append_last [] x = []"
| "append_last [s] x = [s @ [x]]"
| "append_last (s # t # ss) x = s # append_last (t # ss) x"

text \<open>
  The body of \<^verbatim>\<open>for elem in tokenized_thread\<close>, with \<^verbatim>\<open>splitted\<close> as the accumulator:
  a token of \<^verbatim>\<open>split_on\<close> opens a new component, the token is appended to the last
  component, and the loop breaks after the token \<^verbatim>\<open>eos_token_id\<close>.
\<close>

fun split_loop :: "int list list \<Rightarrow> int list \<Rightarrow> int list \<Rightarrow> int \<Rightarrow> int list list" where
  "split_loop splitted [] split_on eos_token_id = splitted"
| "split_loop splitted (elem # rest) split_on eos_token_id =
     (let opened = (if elem \<in> set split_on then splitted @ [[]] else splitted);
          appended = append_last opened elem
      in if elem = eos_token_id then appended
         else split_loop appended rest split_on eos_token_id)"

definition split_encoding :: "int list \<Rightarrow> int list \<Rightarrow> int \<Rightarrow> int list list" where
  "split_encoding tokenized_thread split_on eos_token_id =
     split_loop [[]] tokenized_thread split_on eos_token_id"

text \<open>
  The input up to and including the first occurrence of the terminator, or the whole
  input when the terminator does not occur. This is the reference the splitter is
  compared with; it is not part of the program.
\<close>

fun upto_first :: "int \<Rightarrow> int list \<Rightarrow> int list" where
  "upto_first eos [] = []"
| "upto_first eos (x # xs) = (if x = eos then [x] else x # upto_first eos xs)"

section \<open>The batch padder\<close>

text \<open>Python's \<^verbatim>\<open>max\<close> of a list: a ValueError on the empty list.\<close>

fun py_max :: "nat list \<Rightarrow> py_error + nat" where
  "py_max [] = Inl ValueError"
| "py_max (x # xs) = Inr (fold max xs x)"

definition pad_batch :: "int list list \<Rightarrow> int \<Rightarrow> py_error + int list list" where
  "pad_batch elems pad_token_id =
     (case py_max (map length elems) of
        Inl e \<Rightarrow> Inl e
      | Inr max_len \<Rightarrow>
          Inr (map (\<lambda>elem. elem @ replicate (max_len - length elem) pad_token_id) elems))"

section \<open>The comment-wise dataset generator\<close>

text \<open>
  The ids the generator reads from the tokenizer (\<^verbatim>\<open>user_token_indices\<close> is the encoding of
  the user markers) and the label pad \<^verbatim>\<open>data_config["pad_for"]["comp_type_labels"]\<close>.
  The tokenizer and \<^verbatim>\<open>data_config\<close> of the script are not in the sources; their values
  are parameters.
\<close>

record tokenizer_ids =
  user_token_indices :: "int list"
  eos_token_id :: int
  pad_token_id :: int
  mask_token_id :: int
  pad_for_comp_type_labels :: int

text \<open>
  One element of the thread-level dataset: three arrays with a leading axis of size one
  (tokenized threads, masked threads, component type labels) and a fourth field that is
  ignored.
\<close>

type_synonym 'd thread_batch = "int list list list \<times> int list list list \<times> int list list list \<times> 'd"

text \<open>\<^verbatim>\<open>np.squeeze(x, axis=0).tolist()\<close>: a ValueError unless the first axis has size one.\<close>

fun squeeze0 :: "'a list \<Rightarrow> py_error + 'a" where
  "squeeze0 [x] = Inr x"
| "squeeze0 xs = Inl ValueError"

text \<open>Python's \<^verbatim>\<open>xs[:n]\<close> for an integer \<^verbatim>\<open>n\<close>: a negative \<^verbatim>\<open>n\<close> counts from the end.\<close>

definition py_prefix :: "int \<Rightarrow> 'a list \<Rightarrow> 'a list" where
  "py_prefix n xs = (if 0 \<le> n then take (nat n) xs else take (length xs - nat (- n)) xs)"

text \<open>The three lists \<^verbatim>\<open>comment_wise_*\<close> that the first phase of the generator fills.\<close>

record comment_wise =
  comment_wise_tokenized_threads :: "int list list"
  comment_wise_masked_threads :: "int list list"
  comment_wise_comp_type_labels :: "int list list"

text \<open>
  \<^verbatim>\<open>for elem in splitted_encodings\<close>: each comment takes the prefix of its own length from
  what remains of the thread's mask and labels, and the remainders move on.
\<close>

fun slice_comments :: "comment_wise \<Rightarrow> int list list \<Rightarrow> int list \<Rightarrow> int list \<Rightarrow> comment_wise" where
  "slice_comments cw [] masked_thread comp_type_label = cw"
| "slice_comments cw (elem # rest) masked_thread comp_type_label =
     slice_comments
       \<lparr> comment_wise_tokenized_threads = comment_wise_tokenized_threads cw @ [elem],
         comment_wise_masked_threads =
           comment_wise_masked_threads cw @ [take (length elem) masked_thread],
         comment_wise_comp_type_labels =
           comment_wise_comp_type_labels cw @ [take (length elem) comp_type_label] \<rparr>
       rest (drop (length elem) masked_thread) (drop (length elem) comp_type_label)"

text \<open>\<^verbatim>\<open>for tokenized_thread, masked_thread, comp_type_label in zip(...)\<close>.\<close>

fun thread_loop ::
  "tokenizer_ids \<Rightarrow> comment_wise \<Rightarrow> (int list \<times> int list \<times> int list) list \<Rightarrow> comment_wise" where
  "thread_loop tk cw [] = cw"
| "thread_loop tk cw ((tokenized_thread, masked_thread, comp_type_label) # rest) =
     thread_loop tk
       (slice_comments cw
          (split_encoding tokenized_thread (user_token_indices tk) (eos_token_id tk))
          masked_thread comp_type_label)
       rest"

text \<open>\<^verbatim>\<open>for (tokenized_threads, masked_threads, comp_type_labels, _) in dataset\<close>.\<close>

fun dataset_loop ::
  "tokenizer_ids \<Rightarrow> comment_wise \<Rightarrow> 'd thread_batch list \<Rightarrow> py_error + comment_wise" where
  "dataset_loop tk cw [] = Inr cw"
| "dataset_loop tk cw ((tokenized_threads, masked_threads, comp_type_labels, ignored) # rest) =
     (case squeeze0 tokenized_threads of
        Inl e \<Rightarrow> Inl e
      | Inr tts \<Rightarrow>
     (case squeeze0 masked_threads of
        Inl e \<Rightarrow> Inl e
      | Inr mts \<Rightarrow>
     (case squeeze0 comp_type_labels of
        Inl e \<Rightarrow> Inl e
      | Inr cls \<Rightarrow> dataset_loop tk (thread_loop tk cw (zip tts (zip mts cls))) rest)))"

text \<open>
  An emitted batch: padded tokens, padded masks, padded labels. A generator run is the
  list of the batches it yields and the exception that ends it, if one does.
\<close>

type_synonym batch = "int list list \<times> int list list \<times> int list list"

text \<open>The three calls of \<open>pad_batch\<close> in the \<^verbatim>\<open>yield\<close>.\<close>

definition pad_triple ::
  "tokenizer_ids \<Rightarrow> int list list \<Rightarrow> int list list \<Rightarrow> int list list \<Rightarrow> py_error + batch" where
  "pad_triple tk ts ms ls =
     (case pad_batch ts (pad_token_id tk) of
        Inl e \<Rightarrow> Inl e
      | Inr pt \<Rightarrow>
     (case pad_batch ms (pad_token_id tk) of
        Inl e \<Rightarrow> Inl e
      | Inr pm \<Rightarrow>
     (case pad_batch ls (pad_for_comp_type_labels tk) of
        Inl e \<Rightarrow> Inl e
      | Inr pl \<Rightarrow> Inr (pt, pm, pl))))"

text \<open>
  \<^verbatim>\<open>while i < len(comment_wise_tokenized_threads)\<close>, with the counter \<^verbatim>\<open>i\<close> and the three
  buffers \<^verbatim>\<open>cw_*\<close> as arguments. Reading the mask or label list beyond its end is an
  IndexError, \<^verbatim>\<open>i % batch_size\<close> with \<^verbatim>\<open>batch_size = 0\<close> a ZeroDivisionError.
\<close>

function batch_loop ::
  "tokenizer_ids \<Rightarrow> int \<Rightarrow> int \<Rightarrow> comment_wise \<Rightarrow> nat \<Rightarrow>
   int list list \<Rightarrow> int list list \<Rightarrow> int list list \<Rightarrow> batch list \<times> py_error option" where
  "batch_loop tk max_len batch_size cw i cw_tok cw_msk cw_lab =
     (if i < length (comment_wise_tokenized_threads cw) then
        if length (comment_wise_masked_threads cw) \<le> i
           \<or> length (comment_wise_comp_type_labels cw) \<le> i
        then ([], Some IndexError)
        else
          let cw_tok' = cw_tok @ [py_prefix max_len (comment_wise_tokenized_threads cw ! i)];
              cw_msk' = cw_msk @ [py_prefix max_len (comment_wise_masked_threads cw ! i)];
              cw_lab' = cw_lab @ [py_prefix max_len (comment_wise_comp_type_labels cw ! i)]
          in if batch_size = 0 then ([], Some ZeroDivisionError)
             else if int (Suc i) mod batch_size = 0 then
               (case pad_triple tk cw_tok' cw_msk' cw_lab' of
                  Inl e \<Rightarrow> ([], Some e)
                | Inr b \<Rightarrow>
                    (case batch_loop tk max_len batch_size cw (Suc i) [] [] [] of
                       (out, err) \<Rightarrow> (b # out, err)))
             else batch_loop tk max_len batch_size cw (Suc i) cw_tok' cw_msk' cw_lab'
      else ([], None))"
  by pat_completeness auto
termination
  by (relation "measure (\<lambda>(tk, max_len, batch_size, cw, i, cw_tok, cw_msk, cw_lab).
        length (comment_wise_tokenized_threads cw) - i)") auto

definition get_comment_wise_dataset ::
  "tokenizer_ids \<Rightarrow> 'd thread_batch list \<Rightarrow> int \<Rightarrow> int \<Rightarrow> batch list \<times> py_error option" where
  "get_comment_wise_dataset tk dataset max_len batch_size =
     (case dataset_loop tk
             \<lparr> comment_wise_tokenized_threads = [],
               comment_wise_masked_threads = [],
               comment_wise_comp_type_labels = [] \<rparr> dataset of
        Inl e \<Rightarrow> ([], Some e)
      | Inr cw \<Rightarrow> batch_loop tk max_len batch_size cw 0 [] [] [])"

section \<open>Reference functions for the generator\<close>

text \<open>
  These functions are not part of the program; the properties of the generator are
  stated with them. \<open>pad_rows\<close> is what \<open>pad_batch\<close> returns on a non-empty
  collection, \<open>window B k r\<close> selects \<open>r\<close> rows from row \<open>k * B\<close> on, and
  \<open>batch_of\<close> is the padded batch made of the \<open>k\<close>-th group of \<open>B\<close> comments.
\<close>

definition pad_rows :: "int \<Rightarrow> int list list \<Rightarrow> int list list" where
  "pad_rows p elems =
     map (\<lambda>elem. elem @ replicate (Max (set (map length elems)) - length elem) p) elems"

definition window :: "nat \<Rightarrow> nat \<Rightarrow> nat \<Rightarrow> 'a list \<Rightarrow> 'a list" where
  "window B k r xs = take r (drop (k * B) xs)"

definition batch_of :: "tokenizer_ids \<Rightarrow> int \<Rightarrow> nat \<Rightarrow> comment_wise \<Rightarrow> nat \<Rightarrow> batch" where
  "batch_of tk max_len B cw k =
     (pad_rows (pad_token_id tk)
        (map (py_prefix max_len) (window B k B (comment_wise_tokenized_threads cw))),
      pad_rows (pad_token_id tk)
        (map (py_prefix max_len) (window B k B (comment_wise_masked_threads cw))),
      pad_rows (pad_for_comp_type_labels tk)
        (map (py_prefix max_len) (window B k B (comment_wise_comp_type_labels cw))))"

text \<open>The empty state of the first phase.\<close>

definition no_comments :: comment_wise where
  "no_comments =
     \<lparr> comment_wise_tokenized_threads = [],
       comment_wise_masked_threads = [],
       comment_wise_comp_type_labels = [] \<rparr>"

text \<open>
  The three lists of comments have pairwise the same row lengths.
\<close>

definition aligned :: "comment_wise \<Rightarrow> bool" where
  "aligned cw \<longleftrightarrow>
     map length (comment_wise_masked_threads cw) = map length (comment_wise_tokenized_threads cw)
   \<and> map length (comment_wise_comp_type_labels cw) = map length (comment_wise_tokenized_threads cw)"

text \<open>The three lists of comments have the same number of rows.\<close>

definition same_count :: "comment_wise \<Rightarrow> bool" where
  "same_count cw \<longleftrightarrow>
     length (comment_wise_masked_threads cw) = length (comment_wise_tokenized_threads cw)
   \<and> length (comment_wise_comp_type_labels cw) = length (comment_wise_tokenized_threads cw)"

text \<open>
  The thread-level arrays of a dataset are parallel: in every element the array of masked
  threads and the array of labels have the shape of the array of tokenized threads.
\<close>

definition parallel_arrays :: "'d thread_batch list \<Rightarrow> bool" where
  "parallel_arrays dataset =
     list_all (\<lambda>(tokenized_threads, masked_threads, comp_type_labels, ignored).
        map (map length) masked_threads = map (map length) tokenized_threads
      \<and> map (map length) comp_type_labels = map (map length) tokenized_threads) dataset"

text \<open>
  The masks and labels of a dataset cover its tokens: every thread that the generator
  reads (the threads of an array with a leading axis of size one, which \<open>concat\<close>
  removes as the squeeze does) has a mask sequence and a label sequence at least as long
  as its token sequence. Parallel arrays are a case of this.
\<close>

definition masks_and_labels_cover :: "'d thread_batch list \<Rightarrow> bool" where
  "masks_and_labels_cover dataset =
     list_all (\<lambda>(tokenized_threads, masked_threads, comp_type_labels, ignored).
        list_all (\<lambda>(t, m, l). length t \<le> length m \<and> length t \<le> length l)
          (zip (concat tokenized_threads)
             (zip (concat masked_threads) (concat comp_type_labels)))) dataset"

text \<open>
  The shape of a comment that a sentinel opened: the sentinel first, no sentinel after it.
\<close>

definition comment_shape :: "int list \<Rightarrow> int list \<Rightarrow> bool" where
  "comment_shape split_on s \<longleftrightarrow> s \<noteq> [] \<and> hd s \<in> set split_on \<and> set (tl s) \<inter> set split_on = {}"

text \<open>
  The shape of the splitter's result: a first component without sentinel, then comments.
\<close>

definition well_split :: "int list \<Rightarrow> int list list \<Rightarrow> bool" where
  "well_split split_on ss \<longleftrightarrow>
     ss \<noteq> [] \<and> set (hd ss) \<inter> set split_on = {} \<and> list_all (comment_shape split_on) (tl ss)"

text \<open>The length of \<open>py_prefix n xs\<close> as a function of the length of \<open>xs\<close>.\<close>

definition prefix_len :: "int \<Rightarrow> nat \<Rightarrow> nat" where
  "prefix_len n k = (if 0 \<le> n then min (nat n) k else k - nat (- n))"

section \<open>The configuration and the CRF head\<close>

text \<open>
  A Python dict as an association list in insertion order. \<^verbatim>\<open>d[k]\<close> raises a KeyError for
  a missing key; \<^verbatim>\<open>d.update(e)\<close> overwrites the value of a key that is present and
  appends a new key.
\<close>

definition dict_get :: "('k \<times> 'v) list \<Rightarrow> 'k \<Rightarrow> py_error + 'v" where
  "dict_get d k = (case map_of d k of None \<Rightarrow> Inl KeyError | Some v \<Rightarrow> Inr v)"

fun dict_set :: "('k \<times> 'v) list \<Rightarrow> 'k \<Rightarrow> 'v \<Rightarrow> ('k \<times> 'v) list" where
  "dict_set [] k v = [(k, v)]"
| "dict_set ((k', v') # d) k v = (if k' = k then (k, v) # d else (k', v') # dict_set d k v)"

fun dict_update :: "('k \<times> 'v) list \<Rightarrow> ('k \<times> 'v) list \<Rightarrow> ('k \<times> 'v) list" where
  "dict_update d [] = d"
| "dict_update d ((k, v) # e) = dict_update (dict_set d k v) e"

text \<open>
  The configuration of \<^verbatim>\<open>datasets/persuasive_essays/configs.py\<close>, as a function of the
  value of its \<^verbatim>\<open>all_classes\<close> entry (the file sets it to \<^verbatim>\<open>True\<close>). The pad of the
  tokenized essays is \<^verbatim>\<open>None\<close> in the file and is left out.
\<close>

record data_config =
  cfg_arg_components :: "(string \<times> int) list"
  cfg_max_len :: int
  cfg_batch_size :: int
  cfg_all_classes :: bool
  cfg_pad_for_comp_type_labels :: int

definition config_of :: "bool \<Rightarrow> py_error + data_config" where
  "config_of all_classes =
     (let arg_components = [(''O'', 0), (''B-C'', 1), (''I-C'', 2), (''B-P'', 3), (''I-P'', 4)]
      in case dict_get arg_components ''O'' of
           Inl e \<Rightarrow> Inl e
         | Inr pad_label \<Rightarrow>
             Inr \<lparr> cfg_arg_components =
                     (if all_classes
                      then dict_update arg_components [(''B-MC'', 5), (''I-MC'', 6)]
                      else arg_components),
                   cfg_max_len = 512,
                   cfg_batch_size = 512 * 8,
                   cfg_all_classes = all_classes,
                   cfg_pad_for_comp_type_labels = pad_label \<rparr>)"

definition config :: "py_error + data_config" where
  "config = config_of True"

text \<open>
  \<^verbatim>\<open>[(ac_dict[src], ac_dict[ct]) for ct in dsts]\<close>, with the KeyError of a missing tag.
\<close>

fun transitions_from ::
  "(string \<times> int) list \<Rightarrow> string \<Rightarrow> string list \<Rightarrow> py_error + (int \<times> int) list" where
  "transitions_from ac_dict src [] = Inr []"
| "transitions_from ac_dict src (ct # cts) =
     (case dict_get ac_dict src of
        Inl e \<Rightarrow> Inl e
      | Inr s \<Rightarrow>
     (case dict_get ac_dict ct of
        Inl e \<Rightarrow> Inl e
      | Inr t \<Rightarrow>
     (case transitions_from ac_dict src cts of
        Inl e \<Rightarrow> Inl e
      | Inr ps \<Rightarrow> Inr ((s, t) # ps))))"

text \<open>The concatenation of two lists that may each have raised.\<close>

definition append_results :: "py_error + 'a list \<Rightarrow> py_error + 'a list \<Rightarrow> py_error + 'a list" where
  "append_results a b =
     (case a of Inl e \<Rightarrow> Inl e | Inr xs \<Rightarrow> (case b of Inl e \<Rightarrow> Inl e | Inr ys \<Rightarrow> Inr (xs @ ys)))"

text \<open>
  The module-level \<^verbatim>\<open>allowed_transitions\<close> of the script, for the tag dictionary
  \<^verbatim>\<open>ac_dict = data_config["arg_components"]\<close>.
\<close>

definition allowed_transitions :: "(string \<times> int) list \<Rightarrow> py_error + (int \<times> int) list" where
  "allowed_transitions ac_dict =
     append_results
       (append_results (transitions_from ac_dict ''B-C'' [''I-C''])
                       (transitions_from ac_dict ''B-P'' [''I-P'']))
       (append_results (transitions_from ac_dict ''I-C'' [''I-C'', ''B-C'', ''B-P'', ''O''])
       (append_results (transitions_from ac_dict ''I-P'' [''I-P'', ''B-C'', ''B-P'', ''O''])
                       (transitions_from ac_dict ''O'' [''O'', ''B-C'', ''B-P''])))"

text \<open>
  What \<^verbatim>\<open>get_crf_head\<close> builds: a linear layer with \<^verbatim>\<open>len(ac_dict)\<close> output features and
  a CRF with \<^verbatim>\<open>len(ac_dict)\<close> tags and the allowed transitions as constraints. The hidden
  size of the encoder plays no part here.
\<close>

record crf_head =
  linear_out_features :: nat
  crf_num_tags :: nat
  crf_constraints :: "(int \<times> int) list"

definition get_crf_head :: "(string \<times> int) list \<Rightarrow> py_error + crf_head" where
  "get_crf_head ac_dict =
     (case allowed_transitions ac_dict of
        Inl e \<Rightarrow> Inl e
      | Inr constraints \<Rightarrow>
          Inr \<lparr> linear_out_features = length ac_dict,
                crf_num_tags = length ac_dict,
                crf_constraints = constraints \<rparr>)"

section \<open>The loss and prediction function\<close>

text \<open>
  The weight of \<^verbatim>\<open>cross_entropy_layer\<close>: the natural logarithm of five constants. Tensor
  values are modelled as real numbers, not as floating-point numbers.
\<close>

definition cross_entropy_weight :: "real list" where
  "cross_entropy_weight = map ln [3.3102, 61.4809, 3.6832, 49.6827, 2.5639]"

definition log_softmax :: "real list \<Rightarrow> nat \<Rightarrow> real" where
  "log_softmax x c = x ! c - ln (sum_list (map exp x))"

text \<open>
  \<^verbatim>\<open>torch.nn.CrossEntropyLoss(weight=..., reduction='none')\<close> on scores of shape [N, C] and
  class indices of shape [N], as the library documents it: the weight must have one
  entry per class (a RuntimeError otherwise), the loss of a position with target
  \<^verbatim>\<open>y\<close> is \<^verbatim>\<open>- weight[y] * log_softmax(x)[y]\<close>, a target equal to the default
  \<^verbatim>\<open>ignore_index\<close> (-100) gives 0, and any other target outside [0, C) is an error.
\<close>

definition ce_token :: "nat \<Rightarrow> real list \<Rightarrow> int \<Rightarrow> py_error + real" where
  "ce_token C x y =
     (if length x \<noteq> C then Inl RuntimeError
      else if y = - 100 then Inr 0
      else if y < 0 \<or> int C \<le> y then Inl IndexError
      else Inr (- (cross_entropy_weight ! nat y) * log_softmax x (nat y)))"

fun ce_tokens :: "nat \<Rightarrow> real list list \<Rightarrow> int list \<Rightarrow> py_error + real list" where
  "ce_tokens C [] [] = Inr []"
| "ce_tokens C (x # xs) (y # ys) =
     (case ce_token C x y of
        Inl e \<Rightarrow> Inl e
      | Inr l \<Rightarrow> (case ce_tokens C xs ys of Inl e \<Rightarrow> Inl e | Inr ls \<Rightarrow> Inr (l # ls)))"
| "ce_tokens C xs ys = Inl ValueError"

definition cross_entropy_layer :: "nat \<Rightarrow> real list list \<Rightarrow> int list \<Rightarrow> py_error + real list" where
  "cross_entropy_layer C logits target =
     (if length cross_entropy_weight \<noteq> C then Inl RuntimeError
      else ce_tokens C logits target)"

text \<open>
  The module-level objects that \<^verbatim>\<open>compute\<close> reads. The encoder followed by the linear
  layer, and the two operations of the CRF layer, are external: they are parameters, any
  functions of their arguments. \<open>num_tags\<close> is \<^verbatim>\<open>len(ac_dict)\<close>, the output size of the
  linear layer (the last dimension of the scores) and the number of tags of the CRF.
  A tensor of shape [batch, sequence] is a list of rows.
\<close>

record model =
  tokenizer :: tokenizer_ids
  num_tags :: nat
  encoder_logits :: "int list list \<Rightarrow> int list list \<Rightarrow> real list list list"
  crf_log_likelihood :: "real list list list \<Rightarrow> int list list \<Rightarrow> int list list \<Rightarrow> real"
  crf_viterbi_tags :: "real list list list \<Rightarrow> int list list \<Rightarrow> (int list \<times> real) list"

datatype compute_result = Preds "(int list \<times> real) list" | Loss real

text \<open>
  \<^verbatim>\<open>compute(batch, preds, cross_entropy)\<close>. The elementwise product of the flattened pad
  mask and the per-position losses needs both of the same length (the broadcast of a
  tensor of one element aside); the encoder gives one score vector per token, so the
  lengths differ only for a parameter that is no encoder.
\<close>

definition compute ::
  "model \<Rightarrow> int list list \<times> int list list \<times> int list list \<Rightarrow> bool \<Rightarrow> bool \<Rightarrow>
   py_error + compute_result" where
  "compute md batch preds cross_entropy =
     (case batch of (tokenized_threads, token_type_ids, comp_type_labels) \<Rightarrow>
        let pad_mask = map (map (\<lambda>t. if t \<noteq> pad_token_id (tokenizer md) then 1 else 0))
                         tokenized_threads;
            logits = encoder_logits md tokenized_threads pad_mask
        in if preds then Inr (Preds (crf_viterbi_tags md logits pad_mask))
           else
             let log_likelihood = crf_log_likelihood md logits comp_type_labels pad_mask
             in if cross_entropy then
                  (case cross_entropy_layer (num_tags md) (concat logits)
                          (concat comp_type_labels) of
                     Inl e \<Rightarrow> Inl e
                   | Inr ce \<Rightarrow>
                       if length (concat pad_mask) \<noteq> length ce then Inl RuntimeError
                       else Inr (Loss (sum_list (map2 (\<lambda>m c. real_of_int m * c)
                                                  (concat pad_mask) ce)
                                       - log_likelihood)))
                else Inr (Loss (- log_likelihood)))"

text \<open>
  The loss that the words "length-normalized" describe: the masked sum of the
  per-position losses divided by the number of non-pad positions, minus the
  log-likelihood. It follows the spec's words and is not part of the program.
\<close>

definition spec_length_normalized_loss ::
  "model \<Rightarrow> int list list \<times> int list list \<times> int list list \<Rightarrow> py_error + compute_result" where
  "spec_length_normalized_loss md batch =
     (case batch of (tokenized_threads, token_type_ids, comp_type_labels) \<Rightarrow>
        let pad_mask = map (map (\<lambda>t. if t \<noteq> pad_token_id (tokenizer md) then 1 else 0))
                         tokenized_threads;
            logits = encoder_logits md tokenized_threads pad_mask;
            log_likelihood = crf_log_likelihood md logits comp_type_labels pad_mask
        in (case cross_entropy_layer (num_tags md) (concat logits) (concat comp_type_labels) of
              Inl e \<Rightarrow> Inl e
            | Inr ce \<Rightarrow>
                if length (concat pad_mask) \<noteq> length ce then Inl RuntimeError
                else Inr (Loss (sum_list (map2 (\<lambda>m c. real_of_int m * c) (concat pad_mask) ce)
                                  / real_of_int (sum_list (concat pad_mask))
                                - log_likelihood))))"

section \<open>The training loop\<close>

text \<open>
  \<^verbatim>\<open>torch.tensor(rows)\<close> for a list of rows: a ValueError unless the rows have one length.
\<close>

definition to_tensor :: "int list list \<Rightarrow> py_error + int list list" where
  "to_tensor rows =
     (if list_all (\<lambda>r. length r = length (hd rows)) rows then Inr rows else Inl ValueError)"

text \<open>
  The calls of the optimizer and of \<^verbatim>\<open>backward\<close> that a run of \<^verbatim>\<open>train\<close> makes, in
  order; \<open>Backward l\<close> is \<^verbatim>\<open>loss.backward()\<close> for the loss \<open>l\<close>. The \<^verbatim>\<open>print\<close> of the loss
  is left out.
\<close>

datatype event = ZeroGrad | Backward real | Step

text \<open>
  The body of the loop of \<^verbatim>\<open>train\<close> up to the call of \<open>compute\<close>: the three casts to
  tensors, the masked-token indicator as the second component, and \<open>compute\<close> with its
  default arguments (loss mode, cross-entropy enabled). Predictions cannot be divided by
  a number: a TypeError.
\<close>

definition forward_loss :: "model \<Rightarrow> batch \<Rightarrow> py_error + real" where
  "forward_loss md b =
     (case b of (tokenized_threads, masked_threads, comp_type_labels) \<Rightarrow>
        (case to_tensor tokenized_threads of
           Inl e \<Rightarrow> Inl e
         | Inr tt \<Rightarrow>
        (case to_tensor masked_threads of
           Inl e \<Rightarrow> Inl e
         | Inr mt \<Rightarrow>
        (case to_tensor comp_type_labels of
           Inl e \<Rightarrow> Inl e
         | Inr cl \<Rightarrow>
        (case compute md
                (tt, map (map (\<lambda>m. if m = mask_token_id (tokenizer md) then 1 else 0)) mt, cl)
                False True of
           Inl e \<Rightarrow> Inl e
         | Inr (Preds p) \<Rightarrow> Inl TypeError
         | Inr (Loss l) \<Rightarrow> Inr l)))))"

text \<open>
  The loop of \<^verbatim>\<open>train\<close> over the emitted batches, with the counter \<^verbatim>\<open>i\<close>: the loss is
  divided by \<^verbatim>\<open>data_config["batch_size"]\<close> and back-propagated, and the optimizer steps
  and resets the gradients when \<^verbatim>\<open>i % accumulate_over == accumulate_over - 1\<close>. The
  division is that of the reals, which is the division of the tensor for a constant
  other than zero.
\<close>

fun train_loop :: "model \<Rightarrow> int \<Rightarrow> nat \<Rightarrow> nat \<Rightarrow> batch list \<Rightarrow> event list \<times> py_error option" where
  "train_loop md data_config_batch_size accumulate_over i [] = ([], None)"
| "train_loop md data_config_batch_size accumulate_over i (b # rest) =
     (case forward_loss md b of
        Inl e \<Rightarrow> ([], Some e)
      | Inr l \<Rightarrow>
          (case train_loop md data_config_batch_size accumulate_over (Suc i) rest of
             (events, err) \<Rightarrow>
               (Backward (l / real_of_int data_config_batch_size) #
                (if i mod accumulate_over = accumulate_over - 1 then [Step, ZeroGrad] else [])
                @ events, err)))"

text \<open>
  \<^verbatim>\<open>train(dataset)\<close>: the gradients are reset, the batches of the generator (with its
  default maximal length 512 and batch size 8) go through the loop, and the optimizer
  steps once more after the loop. An exception of the generator or of the loop ends the
  run before that last step.
\<close>

definition train ::
  "model \<Rightarrow> int \<Rightarrow> 'd thread_batch list \<Rightarrow> event list \<times> py_error option" where
  "train md data_config_batch_size dataset =
     (let accumulate_over = 4
      in case get_comment_wise_dataset (tokenizer md) dataset 512 8 of
           (batches, generator_err) \<Rightarrow>
             (case train_loop md data_config_batch_size accumulate_over 0 batches of
                (events, Some e) \<Rightarrow> (ZeroGrad # events, Some e)
              | (events, None) \<Rightarrow>
                  (case generator_err of
                     Some e \<Rightarrow> (ZeroGrad # events, Some e)
                   | None \<Rightarrow> (ZeroGrad # events @ [Step], None))))"

text \<open>The events of the batch with counter \<open>i\<close> and loss \<open>l\<close>, for the constant \<open>B\<close>.\<close>

definition batch_events :: "int \<Rightarrow> nat \<times> real \<Rightarrow> event list" where
  "batch_events B p =
     Backward (snd p / real_of_int B) # (if fst p mod 4 = 3 then [Step, ZeroGrad] else [])"

section \<open>Example inputs\<close>

definition example_ids :: tokenizer_ids where
  "example_ids = \<lparr> user_token_indices = [1, 3], eos_token_id = 2, pad_token_id = 0,
     mask_token_id = 4, pad_for_comp_type_labels = 0 \<rparr>"

definition example_dataset :: "unit thread_batch list" where
  "example_dataset =
     [([[[7, 1, 8, 3, 9, 2, 0, 0], [5, 1, 6, 6, 3, 7, 2, 0]]],
       [[[7, 4, 8, 3, 9, 2, 0, 0], [5, 1, 4, 6, 3, 7, 2, 0]]],
       [[[0, 0, 1, 2, 3, 4, 0, 0], [0, 1, 2, 0, 3, 4, 4, 0]]], ())]"

text \<open>
  An example model: the scores of every token are zero for each of \<open>n\<close> tags, the
  log-likelihood is zero and no tag sequence is decoded.
\<close>

definition example_model :: "nat \<Rightarrow> model" where
  "example_model n =
     \<lparr> tokenizer = example_ids, num_tags = n,
       encoder_logits = (\<lambda>toks mask. map (map (\<lambda>t. replicate n 0)) toks),
       crf_log_likelihood = (\<lambda>logits labels mask. 0),
       crf_viterbi_tags = (\<lambda>logits mask. []) \<rparr>"

text \<open>Forty threads of one token, which are forty comments.\<close>

definition train_example :: "unit thread_batch list" where
  "train_example = [([replicate 40 [7]], [replicate 40 [7]], [replicate 40 [0]], ())]"

section \<open>Properties of the splitter\<close>

lemma append_last_snoc: "append_last (ss @ [s]) x = ss @ [s @ [x]]"
  by (induction ss x rule: append_last.induct) auto

lemma append_last_nonempty: "ss \<noteq> [] \<Longrightarrow> append_last ss x \<noteq> []"
  by (induction ss x rule: append_last.induct) auto

lemma split_loop_nonempty:
  "splitted \<noteq> [] \<Longrightarrow> split_loop splitted xs split_on eos \<noteq> []"
proof (induction xs arbitrary: splitted)
  case Nil
  then show ?case by simp
next
  case (Cons x xs)
  let ?opened = "if x \<in> set split_on then splitted @ [[]] else splitted"
  have ne: "append_last ?opened x \<noteq> []"
    using Cons.prems by (simp add: append_last_nonempty)
  show ?case
  proof (cases "x = eos")
    case True
    then show ?thesis using ne by (simp add: Let_def)
  next
    case False
    then show ?thesis using Cons.IH [OF ne] by (simp add: Let_def)
  qed
qed

lemma concat_append_last:
  "ss \<noteq> [] \<Longrightarrow> concat (append_last ss x) = concat ss @ [x]"
  by (induction ss x rule: append_last.induct) auto

lemma concat_split_loop:
  "splitted \<noteq> [] \<Longrightarrow>
   concat (split_loop splitted xs split_on eos) = concat splitted @ upto_first eos xs"
proof (induction xs arbitrary: splitted)
  case Nil
  then show ?case by simp
next
  case (Cons x xs)
  let ?opened = "if x \<in> set split_on then splitted @ [[]] else splitted"
  have ne: "?opened \<noteq> []" using Cons.prems by simp
  have c: "concat (append_last ?opened x) = concat splitted @ [x]"
    using ne by (simp add: concat_append_last)
  have ne': "append_last ?opened x \<noteq> []"
    using ne by (rule append_last_nonempty)
  show ?case
  proof (cases "x = eos")
    case True
    then show ?thesis using c by (simp add: Let_def)
  next
    case False
    then show ?thesis using Cons.IH [OF ne'] c by (simp add: Let_def)
  qed
qed

lemma length_upto_first: "length (upto_first eos xs) \<le> length xs"
  by (induction xs) auto

lemma upto_first_takeWhile:
  "upto_first eos xs = takeWhile (\<lambda>x. x \<noteq> eos) xs @ take 1 (dropWhile (\<lambda>x. x \<noteq> eos) xs)"
  by (induction xs) auto

lemma upto_first_whole: "eos \<notin> set xs \<Longrightarrow> upto_first eos xs = xs"
  by (induction xs) auto

text \<open>
  C2. For every token sequence, every list of split sentinels and every terminator id,
  the concatenation of the components returned by \<open>split_encoding\<close> is the input cut
  after the first occurrence of the terminator (the terminator included), and the whole
  input when the terminator does not occur.
\<close>

theorem split_encoding_concat:
  "concat (split_encoding xs split_on eos) =
     takeWhile (\<lambda>x. x \<noteq> eos) xs @ take 1 (dropWhile (\<lambda>x. x \<noteq> eos) xs)
   \<and> (eos \<notin> set xs \<longrightarrow> concat (split_encoding xs split_on eos) = xs)"
proof -
  have u: "concat (split_encoding xs split_on eos) = upto_first eos xs"
    by (simp add: split_encoding_def concat_split_loop)
  then have a: "concat (split_encoding xs split_on eos) =
     takeWhile (\<lambda>x. x \<noteq> eos) xs @ take 1 (dropWhile (\<lambda>x. x \<noteq> eos) xs)"
    by (simp add: upto_first_takeWhile)
  have "concat (split_encoding xs split_on eos) = xs" if "eos \<notin> set xs"
    using that u by (simp add: upto_first_whole)
  with a show ?thesis by blast
qed

theorem split_encoding_concat_witness:
  "concat (split_encoding [7, 1, 8, 9, 2, 5] [1] 2) = [7, 1, 8, 9, 2]
   \<and> (2::int) \<notin> set [7, 1, 8]
   \<and> concat (split_encoding [7, 1, 8] [1] 2) = [7, 1, 8]"
  using split_encoding_concat [of "[7, 1, 8, 9, 2, 5]" "[1]" 2]
    split_encoding_concat [of "[7, 1, 8]" "[1]" 2]
  by simp

text \<open>
  C6. \<open>pad_batch\<close> on the empty collection of sequences fails: the maximum of no lengths
  raises a ValueError, and no result is returned.
\<close>

theorem pad_batch_empty_fails: "pad_batch [] pad = Inl ValueError"
  by (simp add: pad_batch_def)

section \<open>Properties of the padder and of the batching loop\<close>

declare batch_loop.simps [simp del]

lemma py_max_Max: "xs \<noteq> [] \<Longrightarrow> py_max xs = Inr (Max (set xs))"
  by (cases xs) (simp_all add: Max.set_eq_fold [symmetric])

lemma pad_batch_pad_rows: "elems \<noteq> [] \<Longrightarrow> pad_batch elems p = Inr (pad_rows p elems)"
  by (simp add: pad_batch_def pad_rows_def py_max_Max)

lemma pad_triple_nonempty:
  "ts \<noteq> [] \<Longrightarrow> ms \<noteq> [] \<Longrightarrow> ls \<noteq> [] \<Longrightarrow>
   pad_triple tk ts ms ls =
     Inr (pad_rows (pad_token_id tk) ts, pad_rows (pad_token_id tk) ms,
          pad_rows (pad_for_comp_type_labels tk) ls)"
  by (simp add: pad_triple_def pad_batch_pad_rows)

lemma length_pad_rows [simp]: "length (pad_rows p elems) = length elems"
  by (simp add: pad_rows_def)

lemma map_length_pad_rows:
  "map length (pad_rows p elems) = replicate (length elems) (Max (set (map length elems)))"
proof -
  have "length e + (Max (set (map length elems)) - length e) = Max (set (map length elems))"
    if "e \<in> set elems" for e
  proof -
    have "length e \<le> Max (set (map length elems))"
      using that by (intro Max_ge) auto
    then show ?thesis by simp
  qed
  then show ?thesis
    by (simp add: pad_rows_def map_replicate_const [symmetric] del: set_map cong: map_cong)
qed

lemma mod_int_nat_abs:
  assumes "bs \<noteq> 0"
  shows "int k mod bs = 0 \<longleftrightarrow> k mod nat \<bar>bs\<bar> = 0"
proof -
  have "int k mod bs = 0 \<longleftrightarrow> bs dvd int k" by (simp add: mod_eq_0_iff_dvd)
  also have "\<dots> \<longleftrightarrow> \<bar>bs\<bar> dvd int k" by simp
  also have "\<dots> \<longleftrightarrow> int (nat \<bar>bs\<bar>) dvd int k" by simp
  also have "\<dots> \<longleftrightarrow> nat \<bar>bs\<bar> dvd k" by (rule int_dvd_int_iff)
  also have "\<dots> \<longleftrightarrow> k mod nat \<bar>bs\<bar> = 0" by (simp add: mod_eq_0_iff_dvd)
  finally show ?thesis .
qed

lemma window_snoc:
  assumes "i < length xs" and "0 < B"
  shows "window B (i div B) (i mod B) xs @ [xs ! i] = window B (i div B) (Suc (i mod B)) xs"
proof -
  have i: "i div B * B + i mod B = i" by simp
  have "i mod B < length (drop (i div B * B) xs)"
    using assms(1) i by (simp add: less_diff_conv)
  then have "take (Suc (i mod B)) (drop (i div B * B) xs) =
     take (i mod B) (drop (i div B * B) xs) @ [drop (i div B * B) xs ! (i mod B)]"
    by (rule take_Suc_conv_app_nth)
  moreover have "drop (i div B * B) xs ! (i mod B) = xs ! i"
  proof -
    have "i div B * B \<le> length xs"
      using assms(1) i by (metis le_add1 le_trans less_imp_le_nat)
    then have "drop (i div B * B) xs ! (i mod B) = xs ! (i div B * B + i mod B)"
      by (rule nth_drop)
    then show ?thesis by simp
  qed
  ultimately show ?thesis by (simp add: window_def)
qed

lemma div_mod_Suc_full:
  assumes "Suc i mod B = 0" and "0 < B"
  shows "Suc (i mod B) = B" and "Suc i div B = Suc (i div B)"
  using assms by (auto simp: mod_Suc div_Suc split: if_splits)

lemma div_mod_Suc_part:
  assumes "Suc i mod B \<noteq> 0"
  shows "Suc i mod B = Suc (i mod B)" and "Suc i div B = i div B"
  using assms by (auto simp: mod_Suc div_Suc split: if_splits)

lemma batch_loop_batch_of:
  "batch_size \<noteq> 0 \<Longrightarrow>
   length (comment_wise_masked_threads cw) = length (comment_wise_tokenized_threads cw) \<Longrightarrow>
   length (comment_wise_comp_type_labels cw) = length (comment_wise_tokenized_threads cw) \<Longrightarrow>
   i \<le> length (comment_wise_tokenized_threads cw) \<Longrightarrow>
   cw_tok = map (py_prefix max_len)
      (window (nat \<bar>batch_size\<bar>) (i div nat \<bar>batch_size\<bar>) (i mod nat \<bar>batch_size\<bar>)
         (comment_wise_tokenized_threads cw)) \<Longrightarrow>
   cw_msk = map (py_prefix max_len)
      (window (nat \<bar>batch_size\<bar>) (i div nat \<bar>batch_size\<bar>) (i mod nat \<bar>batch_size\<bar>)
         (comment_wise_masked_threads cw)) \<Longrightarrow>
   cw_lab = map (py_prefix max_len)
      (window (nat \<bar>batch_size\<bar>) (i div nat \<bar>batch_size\<bar>) (i mod nat \<bar>batch_size\<bar>)
         (comment_wise_comp_type_labels cw)) \<Longrightarrow>
   batch_loop tk max_len batch_size cw i cw_tok cw_msk cw_lab =
     (map (batch_of tk max_len (nat \<bar>batch_size\<bar>) cw)
        [i div nat \<bar>batch_size\<bar> ..< length (comment_wise_tokenized_threads cw) div nat \<bar>batch_size\<bar>],
      None)"
proof (induction tk max_len batch_size cw i cw_tok cw_msk cw_lab rule: batch_loop.induct)
  case (1 tk max_len batch_size cw i cw_tok cw_msk cw_lab)
  let ?B = "nat \<bar>batch_size\<bar>"
  let ?T = "comment_wise_tokenized_threads cw"
  let ?M = "comment_wise_masked_threads cw"
  let ?L = "comment_wise_comp_type_labels cw"
  let ?n = "length ?T"
  have B: "0 < ?B" using "1.prems"(1) by simp
  show ?case
  proof (cases "i < ?n")
    case False
    then have "i = ?n" using "1.prems"(4) by simp
    then show ?thesis
      by (subst batch_loop.simps) simp
  next
    case True
    have inM: "i < length ?M" and inL: "i < length ?L"
      using True "1.prems"(2,3) by simp_all
    let ?tok' = "cw_tok @ [py_prefix max_len (?T ! i)]"
    let ?msk' = "cw_msk @ [py_prefix max_len (?M ! i)]"
    let ?lab' = "cw_lab @ [py_prefix max_len (?L ! i)]"
    have tok': "?tok' = map (py_prefix max_len) (window ?B (i div ?B) (Suc (i mod ?B)) ?T)"
      using window_snoc [OF True B] "1.prems"(5) by (metis (no_types) list.simps(8,9) map_append)
    have msk': "?msk' = map (py_prefix max_len) (window ?B (i div ?B) (Suc (i mod ?B)) ?M)"
      using window_snoc [OF inM B] "1.prems"(6) by (metis (no_types) list.simps(8,9) map_append)
    have lab': "?lab' = map (py_prefix max_len) (window ?B (i div ?B) (Suc (i mod ?B)) ?L)"
      using window_snoc [OF inL B] "1.prems"(7) by (metis (no_types) list.simps(8,9) map_append)
    have guard: "\<not> (length ?M \<le> i \<or> length ?L \<le> i)"
      using inM inL by simp
    show ?thesis
    proof (cases "int (Suc i) mod batch_size = 0")
      case full: True
      have m0: "Suc i mod ?B = 0"
        by (rule iffD1 [OF mod_int_nat_abs [OF "1.prems"(1)] full])
      note fm = div_mod_Suc_full [OF m0 B]
      have pad0: "pad_triple tk ?tok' ?msk' ?lab' =
          Inr (pad_rows (pad_token_id tk) ?tok', pad_rows (pad_token_id tk) ?msk',
               pad_rows (pad_for_comp_type_labels tk) ?lab')"
        by (rule pad_triple_nonempty) simp_all
      have pad: "pad_triple tk ?tok' ?msk' ?lab' = Inr (batch_of tk max_len ?B cw (i div ?B))"
        unfolding pad0 batch_of_def by (simp only: tok' msk' lab' fm(1))
      have rec: "batch_loop tk max_len batch_size cw (Suc i) [] [] [] =
         (map (batch_of tk max_len ?B cw) [Suc i div ?B ..< ?n div ?B], None)"
        apply (rule "1.IH"(1) [OF True guard refl refl refl _ full pad])
        using "1.prems"(1,2,3) True m0 by (simp_all add: window_def)
      have lt: "i div ?B < ?n div ?B"
      proof -
        have "Suc i div ?B \<le> ?n div ?B"
          using True by (intro div_le_mono) simp
        then show ?thesis using fm(2) by simp
      qed
      have "batch_loop tk max_len batch_size cw i cw_tok cw_msk cw_lab =
          (batch_of tk max_len ?B cw (i div ?B) #
             map (batch_of tk max_len ?B cw) [Suc i div ?B ..< ?n div ?B], None)"
        using True guard full "1.prems"(1) pad rec
        by (subst batch_loop.simps) (simp add: Let_def)
      then show ?thesis
        using lt fm(2) by (simp add: upt_conv_Cons)
    next
      case part: False
      have m0: "Suc i mod ?B \<noteq> 0"
      proof
        assume "Suc i mod ?B = 0"
        then have "int (Suc i) mod batch_size = 0"
          by (rule iffD2 [OF mod_int_nat_abs [OF "1.prems"(1)]])
        with part show False by (rule notE)
      qed
      note pm = div_mod_Suc_part [OF m0]
      have rec: "batch_loop tk max_len batch_size cw (Suc i) ?tok' ?msk' ?lab' =
         (map (batch_of tk max_len ?B cw) [Suc i div ?B ..< ?n div ?B], None)"
        apply (rule "1.IH"(2) [OF True guard refl refl refl _ part])
        using "1.prems"(1,2,3) True tok' msk' lab' pm by simp_all
      have "batch_loop tk max_len batch_size cw i cw_tok cw_msk cw_lab =
          batch_loop tk max_len batch_size cw (Suc i) ?tok' ?msk' ?lab'"
        using True guard part "1.prems"(1)
        by (subst batch_loop.simps) (simp add: Let_def)
      then show ?thesis using rec pm(2) by simp
    qed
  qed
qed

section \<open>Properties of the first phase of the generator\<close>

lemma slice_comments_tokens:
  "comment_wise_tokenized_threads (slice_comments cw es m l) =
     comment_wise_tokenized_threads cw @ es"
  by (induction cw es m l rule: slice_comments.induct) simp_all

lemma slice_comments_counts:
  "length (comment_wise_masked_threads (slice_comments cw es m l)) =
     length (comment_wise_masked_threads cw) + length es
   \<and> length (comment_wise_comp_type_labels (slice_comments cw es m l)) =
     length (comment_wise_comp_type_labels cw) + length es"
  by (induction cw es m l rule: slice_comments.induct) simp_all

lemma slice_comments_aligned:
  "aligned cw \<Longrightarrow> length (concat es) \<le> length m \<Longrightarrow> length (concat es) \<le> length l \<Longrightarrow>
   aligned (slice_comments cw es m l)"
proof (induction cw es m l rule: slice_comments.induct)
  case (1 cw m l)
  then show ?case by simp
next
  case (2 cw elem rest m l)
  have e: "length elem \<le> length m" "length elem \<le> length l"
    using "2.prems"(2,3) by simp_all
  show ?case
    unfolding slice_comments.simps
  proof (rule "2.IH")
    show "aligned
       \<lparr>comment_wise_tokenized_threads = comment_wise_tokenized_threads cw @ [elem],
        comment_wise_masked_threads = comment_wise_masked_threads cw @ [take (length elem) m],
        comment_wise_comp_type_labels = comment_wise_comp_type_labels cw @ [take (length elem) l]\<rparr>"
      using "2.prems"(1) e by (simp add: aligned_def min_def)
    show "length (concat rest) \<le> length (drop (length elem) m)"
      using "2.prems"(2) by simp
    show "length (concat rest) \<le> length (drop (length elem) l)"
      using "2.prems"(3) by simp
  qed
qed

lemma length_concat_split_encoding:
  "length (concat (split_encoding t split_on eos)) \<le> length t"
  by (simp add: split_encoding_def concat_split_loop length_upto_first)

lemma slice_comments_same_count: "same_count cw \<Longrightarrow> same_count (slice_comments cw es m l)"
  using slice_comments_counts [of cw es m l]
  by (simp add: same_count_def slice_comments_tokens)

lemma thread_loop_same_count: "same_count cw \<Longrightarrow> same_count (thread_loop tk cw threads)"
  by (induction tk cw threads rule: thread_loop.induct) (simp_all add: slice_comments_same_count)

lemma thread_loop_tokens:
  "comment_wise_tokenized_threads (thread_loop tk cw threads) =
     comment_wise_tokenized_threads cw @
     concat (map (\<lambda>(t, m, l). split_encoding t (user_token_indices tk) (eos_token_id tk)) threads)"
  by (induction tk cw threads rule: thread_loop.induct) (simp_all add: slice_comments_tokens)

lemma thread_loop_aligned:
  "aligned cw \<Longrightarrow>
   (\<And>t m l. (t, m, l) \<in> set threads \<Longrightarrow> length t \<le> length m \<and> length t \<le> length l) \<Longrightarrow>
   aligned (thread_loop tk cw threads)"
proof (induction tk cw threads rule: thread_loop.induct)
  case (1 tk cw)
  then show ?case by simp
next
  case (2 tk cw t m l rest)
  have tl: "length t \<le> length m \<and> length t \<le> length l"
    by (rule "2.prems"(2)) simp
  have "aligned (slice_comments cw (split_encoding t (user_token_indices tk) (eos_token_id tk)) m l)"
    using "2.prems"(1) tl length_concat_split_encoding [of t "user_token_indices tk" "eos_token_id tk"]
    by (intro slice_comments_aligned) simp_all
  then have "aligned (thread_loop tk
      (slice_comments cw (split_encoding t (user_token_indices tk) (eos_token_id tk)) m l) rest)"
  proof (rule "2.IH")
    fix t' m' l'
    assume "(t', m', l') \<in> set rest"
    then have "(t', m', l') \<in> set ((t, m, l) # rest)" by simp
    then show "length t' \<le> length m' \<and> length t' \<le> length l'"
      by (rule "2.prems"(2))
  qed
  then show ?case by simp
qed

lemma squeeze0_Inr: "squeeze0 xs = Inr x \<Longrightarrow> xs = [x]"
  by (cases xs rule: squeeze0.cases) simp_all

lemma dataset_loop_Cons_Inr:
  assumes "dataset_loop tk cw ((tt, mt, cl, ig) # rest) = Inr cw'"
  shows "\<exists>tts mts cls. tt = [tts] \<and> mt = [mts] \<and> cl = [cls]
     \<and> dataset_loop tk (thread_loop tk cw (zip tts (zip mts cls))) rest = Inr cw'"
proof (cases "squeeze0 tt")
  case (Inl e)
  with assms show ?thesis by simp
next
  case a: (Inr tts)
  show ?thesis
  proof (cases "squeeze0 mt")
    case (Inl e)
    with assms a show ?thesis by simp
  next
    case b: (Inr mts)
    show ?thesis
    proof (cases "squeeze0 cl")
      case (Inl e)
      with assms a b show ?thesis by simp
    next
      case c: (Inr cls)
      have "dataset_loop tk (thread_loop tk cw (zip tts (zip mts cls))) rest = Inr cw'"
        using assms a b c by simp
      then show ?thesis
        using squeeze0_Inr [OF a] squeeze0_Inr [OF b] squeeze0_Inr [OF c] by blast
    qed
  qed
qed

lemma dataset_loop_same_count:
  "same_count cw \<Longrightarrow> dataset_loop tk cw dataset = Inr cw' \<Longrightarrow> same_count cw'"
proof (induction tk cw dataset rule: dataset_loop.induct)
  case (1 tk cw)
  then show ?case by simp
next
  case (2 tk cw tokenized_threads masked_threads comp_type_labels ignored rest)
  from dataset_loop_Cons_Inr [OF "2.prems"(2)] obtain tts mts cls where
    sq: "tokenized_threads = [tts]" "masked_threads = [mts]" "comp_type_labels = [cls]"
    and rec: "dataset_loop tk (thread_loop tk cw (zip tts (zip mts cls))) rest = Inr cw'"
    by blast
  have sq': "squeeze0 tokenized_threads = Inr tts" "squeeze0 masked_threads = Inr mts"
      "squeeze0 comp_type_labels = Inr cls"
    using sq by simp_all
  show ?case
    by (rule "2.IH" [OF sq' thread_loop_same_count [OF "2.prems"(1)] rec])
qed

lemma zip3_same_shape:
  assumes "map length ms = map length ts" and "map length ls = map length ts"
    and "(t, m, l) \<in> set (zip ts (zip ms ls))"
  shows "length t = length m \<and> length t = length l"
proof -
  from assms(3) obtain j where j: "j < length ts" "j < length ms" "j < length ls"
    and t: "t = ts ! j" and m: "m = ms ! j" and l: "l = ls ! j"
    by (auto simp: in_set_zip)
  have "length m = map length ms ! j" using j(2) m by simp
  also have "\<dots> = map length ts ! j" by (simp only: assms(1))
  also have "\<dots> = length t" using j(1) t by simp
  finally have 1: "length m = length t" .
  have "length l = map length ls ! j" using j(3) l by simp
  also have "\<dots> = map length ts ! j" by (simp only: assms(2))
  also have "\<dots> = length t" using j(1) t by simp
  finally have 2: "length l = length t" .
  from 1 2 show ?thesis by simp
qed

lemma dataset_loop_aligned:
  "aligned cw \<Longrightarrow> masks_and_labels_cover dataset \<Longrightarrow>
   dataset_loop tk cw dataset = Inr cw' \<Longrightarrow>
   aligned cw'"
proof (induction tk cw dataset rule: dataset_loop.induct)
  case (1 tk cw)
  then show ?case by simp
next
  case (2 tk cw tokenized_threads masked_threads comp_type_labels ignored rest)
  from dataset_loop_Cons_Inr [OF "2.prems"(3)] obtain tts mts cls where
    sq: "tokenized_threads = [tts]" "masked_threads = [mts]" "comp_type_labels = [cls]"
    and rec: "dataset_loop tk (thread_loop tk cw (zip tts (zip mts cls))) rest = Inr cw'"
    by blast
  have sq': "squeeze0 tokenized_threads = Inr tts" "squeeze0 masked_threads = Inr mts"
      "squeeze0 comp_type_labels = Inr cls"
    using sq by simp_all
  have cov: "list_all (\<lambda>(t, m, l). length t \<le> length m \<and> length t \<le> length l)
      (zip tts (zip mts cls))"
    using "2.prems"(2) sq by (simp add: masks_and_labels_cover_def)
  have par: "masks_and_labels_cover rest"
    using "2.prems"(2) by (simp add: masks_and_labels_cover_def)
  have al: "aligned (thread_loop tk cw (zip tts (zip mts cls)))"
  proof (rule thread_loop_aligned [OF "2.prems"(1)])
    fix t m l
    assume "(t, m, l) \<in> set (zip tts (zip mts cls))"
    with cov show "length t \<le> length m \<and> length t \<le> length l"
      by (auto simp: list_all_iff)
  qed
  show ?case
    by (rule "2.IH" [OF sq' al par rec])
qed

lemma parallel_arrays_cover:
  assumes "parallel_arrays dataset"
  shows "masks_and_labels_cover dataset"
  unfolding masks_and_labels_cover_def list_all_iff
proof (intro ballI)
  fix x :: "'a thread_batch"
  assume x: "x \<in> set dataset"
  obtain tt mt cl ig where xe: "x = (tt, mt, cl, ig)"
    by (cases x) auto
  have sh: "map (map length) mt = map (map length) tt" "map (map length) cl = map (map length) tt"
    using assms x xe by (auto simp: parallel_arrays_def list_all_iff)
  have m: "map length (concat mt) = map length (concat tt)"
    unfolding map_concat by (simp only: sh(1))
  have l: "map length (concat cl) = map length (concat tt)"
    unfolding map_concat by (simp only: sh(2))
  have "length t \<le> length m' \<and> length t \<le> length l'"
    if "(t, m', l') \<in> set (zip (concat tt) (zip (concat mt) (concat cl)))" for t m' l'
    using zip3_same_shape [OF m l that] by simp
  then show "case x of (tokenized_threads, masked_threads, comp_type_labels, ignored) \<Rightarrow>
      \<forall>x \<in> set (zip (concat tokenized_threads)
          (zip (concat masked_threads) (concat comp_type_labels))).
        case x of (t, m, l) \<Rightarrow> length t \<le> length m \<and> length t \<le> length l"
    unfolding xe by auto
qed

lemma same_count_no_comments: "same_count no_comments"
  by (simp add: same_count_def no_comments_def)

lemma aligned_no_comments: "aligned no_comments"
  by (simp add: aligned_def no_comments_def)

section \<open>Properties of the generator\<close>

lemma length_py_prefix: "length (py_prefix n xs) = prefix_len n (length xs)"
  by (simp add: py_prefix_def prefix_len_def min.commute)

lemma map_length_prefix_window:
  assumes "map length xs = map length ys"
  shows "map length (map (py_prefix n) (window B k r xs)) =
         map length (map (py_prefix n) (window B k r ys))"
proof -
  have *: "map length (map (py_prefix n) (window B k r zs)) =
        map (prefix_len n) (take r (drop (k * B) (map length zs)))" for zs :: "'z list list"
    by (simp add: window_def take_map drop_map length_py_prefix o_def)
  show ?thesis unfolding * by (simp only: assms)
qed

lemma map_length_pad_rows_cong:
  assumes "map length xs = map length ys"
  shows "map length (pad_rows p xs) = map length (pad_rows q ys)"
proof -
  have "length xs = length ys"
    using assms by (rule map_eq_imp_length_eq)
  then show ?thesis
    by (simp only: map_length_pad_rows assms)
qed

lemma batch_of_rows:
  assumes "aligned cw" and "batch_of tk max_len B cw k = (toks, msks, labs)"
  shows "map length msks = map length toks \<and> map length labs = map length toks"
proof -
  have m: "map length (comment_wise_masked_threads cw) =
      map length (comment_wise_tokenized_threads cw)"
    and l: "map length (comment_wise_comp_type_labels cw) =
      map length (comment_wise_tokenized_threads cw)"
    using assms(1) by (simp_all add: aligned_def)
  have toks: "toks = pad_rows (pad_token_id tk)
        (map (py_prefix max_len) (window B k B (comment_wise_tokenized_threads cw)))"
    and msks: "msks = pad_rows (pad_token_id tk)
        (map (py_prefix max_len) (window B k B (comment_wise_masked_threads cw)))"
    and labs: "labs = pad_rows (pad_for_comp_type_labels tk)
        (map (py_prefix max_len) (window B k B (comment_wise_comp_type_labels cw)))"
    using assms(2) by (simp_all add: batch_of_def)
  show ?thesis
    unfolding toks msks labs
    by (intro conjI map_length_pad_rows_cong map_length_prefix_window m l)
qed

lemma get_comment_wise_dataset_batches:
  assumes "dataset_loop tk no_comments dataset = Inr cw" and "batch_size \<noteq> 0"
  shows "get_comment_wise_dataset tk dataset max_len batch_size =
     (map (batch_of tk max_len (nat \<bar>batch_size\<bar>) cw)
        [0 ..< length (comment_wise_tokenized_threads cw) div nat \<bar>batch_size\<bar>], None)"
proof -
  have sc: "same_count cw"
    using same_count_no_comments assms(1) by (rule dataset_loop_same_count)
  have "batch_loop tk max_len batch_size cw 0 [] [] [] =
     (map (batch_of tk max_len (nat \<bar>batch_size\<bar>) cw)
        [0 div nat \<bar>batch_size\<bar> ..<
          length (comment_wise_tokenized_threads cw) div nat \<bar>batch_size\<bar>], None)"
    using sc assms(2)
    by (intro batch_loop_batch_of) (simp_all add: same_count_def window_def)
  then show ?thesis
    using assms(1) by (simp add: get_comment_wise_dataset_def no_comments_def)
qed

lemma get_comment_wise_dataset_zero:
  "fst (get_comment_wise_dataset tk dataset max_len 0) = []"
proof (cases "dataset_loop tk no_comments dataset")
  case (Inl e)
  then show ?thesis by (simp add: get_comment_wise_dataset_def no_comments_def)
next
  case (Inr cw)
  have "fst (batch_loop tk max_len 0 cw 0 [] [] []) = []"
    by (subst batch_loop.simps) (simp add: Let_def)
  then show ?thesis
    using Inr by (simp add: get_comment_wise_dataset_def no_comments_def)
qed

lemma example_run:
  "get_comment_wise_dataset example_ids example_dataset 512 4 =
     ([([[7, 0, 0], [1, 8, 0], [3, 9, 2], [5, 0, 0]],
        [[7, 0, 0], [4, 8, 0], [3, 9, 2], [5, 0, 0]],
        [[0, 0, 0], [0, 1, 0], [2, 3, 4], [0, 0, 0]])], None)"
  by code_simp

lemma example_parallel: "parallel_arrays example_dataset"
  by (simp add: parallel_arrays_def example_dataset_def)

lemma example_cover: "masks_and_labels_cover example_dataset"
  by (simp add: masks_and_labels_cover_def example_dataset_def)

lemma example_first_phase:
  "dataset_loop example_ids no_comments example_dataset =
     Inr \<lparr> comment_wise_tokenized_threads = [[7], [1, 8], [3, 9, 2], [5], [1, 6, 6], [3, 7, 2]],
           comment_wise_masked_threads = [[7], [4, 8], [3, 9, 2], [5], [1, 4, 6], [3, 7, 2]],
           comment_wise_comp_type_labels = [[0], [0, 1], [2, 3, 4], [0], [1, 2, 0], [3, 4, 4]] \<rparr>"
  by code_simp

text \<open>
  C1, amended. When the masks and labels of the dataset cover its tokens (every thread's
  mask sequence and label sequence are at least as long as its token sequence, as they
  are for parallel arrays), every batch emitted by the comment-wise generator has the
  same number of rows in its three streams, and its i-th token row, i-th mask row and
  i-th label row have the same length, for every i. This holds for every maximal length
  and every batch size.
\<close>

theorem emitted_rows_same_length:
  assumes "masks_and_labels_cover dataset"
    and "(toks, msks, labs) \<in> set (fst (get_comment_wise_dataset tk dataset max_len batch_size))"
  shows "length msks = length toks \<and> length labs = length toks
     \<and> (\<forall>i < length toks. length (msks ! i) = length (toks ! i)
                          \<and> length (labs ! i) = length (toks ! i))"
proof -
  have ne: "batch_size \<noteq> 0"
    using assms(2) get_comment_wise_dataset_zero [of tk dataset max_len] by auto
  obtain cw where cw: "dataset_loop tk no_comments dataset = Inr cw"
    using assms(2)
    by (cases "dataset_loop tk no_comments dataset")
       (simp_all add: get_comment_wise_dataset_def no_comments_def)
  have al: "aligned cw"
    using aligned_no_comments assms(1) cw by (rule dataset_loop_aligned)
  from assms(2) obtain k where "batch_of tk max_len (nat \<bar>batch_size\<bar>) cw k = (toks, msks, labs)"
    unfolding get_comment_wise_dataset_batches [OF cw ne] by auto
  from batch_of_rows [OF al this]
  have m: "map length msks = map length toks" and l: "map length labs = map length toks"
    by simp_all
  have lm: "length msks = length toks" using m by (rule map_eq_imp_length_eq)
  have ll: "length labs = length toks" using l by (rule map_eq_imp_length_eq)
  have "length (msks ! i) = length (toks ! i) \<and> length (labs ! i) = length (toks ! i)"
    if "i < length toks" for i
  proof -
    have "length (msks ! i) = map length msks ! i" using that lm by simp
    also have "\<dots> = map length toks ! i" by (simp only: m)
    also have "\<dots> = length (toks ! i)" using that by simp
    finally have 1: "length (msks ! i) = length (toks ! i)" .
    have "length (labs ! i) = map length labs ! i" using that ll by simp
    also have "\<dots> = map length toks ! i" by (simp only: l)
    also have "\<dots> = length (toks ! i)" using that by simp
    finally have 2: "length (labs ! i) = length (toks ! i)" .
    from 1 2 show ?thesis by simp
  qed
  with lm ll show ?thesis by simp
qed

theorem emitted_rows_same_length_witness:
  "masks_and_labels_cover example_dataset
   \<and> ([[7, 0, 0], [1, 8, 0], [3, 9, 2], [5, 0, 0]],
      [[7, 0, 0], [4, 8, 0], [3, 9, 2], [5, 0, 0]],
      [[0, 0, 0], [0, 1, 0], [2, 3, 4], [0, 0, 0]])
       \<in> set (fst (get_comment_wise_dataset example_ids example_dataset 512 4))
   \<and> length ([[7, 0, 0], [4, 8, 0], [3, 9, 2], [5, 0, 0]] ! 1 :: int list)
       = length ([[7, 0, 0], [1, 8, 0], [3, 9, 2], [5, 0, 0]] ! 1 :: int list)
   \<and> length ([[0, 0, 0], [0, 1, 0], [2, 3, 4], [0, 0, 0]] ! 1 :: int list)
       = length ([[7, 0, 0], [1, 8, 0], [3, 9, 2], [5, 0, 0]] ! 1 :: int list)"
proof -
  have m: "([[7, 0, 0], [1, 8, 0], [3, 9, 2], [5, 0, 0]],
      [[7, 0, 0], [4, 8, 0], [3, 9, 2], [5, 0, 0]],
      [[0, 0, 0], [0, 1, 0], [2, 3, 4], [0, 0, 0]])
       \<in> set (fst (get_comment_wise_dataset example_ids example_dataset 512 4))"
    by (simp add: example_run)
  from emitted_rows_same_length [OF example_cover m]
  show ?thesis using example_cover m by simp
qed

text \<open>
  A run on a thread whose mask sequence is shorter than its token sequence: the generator
  checks no lengths, and the third batch has an empty mask row beside a token row of
  three ids.
\<close>

lemma misaligned_mask_rows_differ:
  "get_comment_wise_dataset example_ids
     [([[[7, 1, 8, 3, 9, 2]]], [[[7, 4, 8]]], [[[0, 0, 1, 2, 3, 4]]], ())] 512 1 =
     ([([[7]], [[7]], [[0]]), ([[1, 8]], [[4, 8]], [[0, 1]]), ([[3, 9, 2]], [[]], [[2, 3, 4]])],
      None)"
  by code_simp

text \<open>
  C1 as stated, for every emitted batch of every dataset, fails on that run: the batch
  \<open>([[3, 9, 2]], [[]], [[2, 3, 4]])\<close> is emitted and its first mask row is not as long
  as its first token row.
\<close>

theorem emitted_rows_differ_counterexample:
  "([[3, 9, 2]], [[]], [[2, 3, 4]])
     \<in> set (fst (get_comment_wise_dataset example_ids
           [([[[7, 1, 8, 3, 9, 2]]], [[[7, 4, 8]]], [[[0, 0, 1, 2, 3, 4]]], ())] 512 1))
   \<and> length ([[]] ! 0 :: int list) \<noteq> length ([[3, 9, 2]] ! 0 :: int list)"
  by (simp add: misaligned_mask_rows_differ)

lemma full_window:
  assumes "k < length xs div B"
  shows "length (window B k B xs) = B"
proof -
  have "Suc k \<le> length xs div B" using assms by simp
  then have "Suc k * B \<le> length xs div B * B" by (rule mult_le_mono1)
  also have "\<dots> \<le> length xs" by simp
  finally have "k * B + B \<le> length xs" by simp
  then show ?thesis by (simp add: window_def)
qed

lemma batch_of_full:
  assumes "same_count cw" and "k < length (comment_wise_tokenized_threads cw) div B" and "0 < B"
  shows "pad_triple tk
           (map (py_prefix max_len) (window B k B (comment_wise_tokenized_threads cw)))
           (map (py_prefix max_len) (window B k B (comment_wise_masked_threads cw)))
           (map (py_prefix max_len) (window B k B (comment_wise_comp_type_labels cw)))
         = Inr (batch_of tk max_len B cw k)"
    and "length (fst (batch_of tk max_len B cw k)) = B"
    and "length (fst (snd (batch_of tk max_len B cw k))) = B"
    and "length (snd (snd (batch_of tk max_len B cw k))) = B"
proof -
  have k: "k < length (comment_wise_masked_threads cw) div B"
    "k < length (comment_wise_comp_type_labels cw) div B"
    using assms(1,2) by (simp_all add: same_count_def)
  note w = full_window [OF assms(2)] full_window [OF k(1)] full_window [OF k(2)]
  have ne: "window B k B (comment_wise_tokenized_threads cw) \<noteq> []"
    "window B k B (comment_wise_masked_threads cw) \<noteq> []"
    "window B k B (comment_wise_comp_type_labels cw) \<noteq> []"
    using w assms(3) by auto
  show "pad_triple tk
           (map (py_prefix max_len) (window B k B (comment_wise_tokenized_threads cw)))
           (map (py_prefix max_len) (window B k B (comment_wise_masked_threads cw)))
           (map (py_prefix max_len) (window B k B (comment_wise_comp_type_labels cw)))
         = Inr (batch_of tk max_len B cw k)"
    unfolding batch_of_def by (rule pad_triple_nonempty) (simp_all add: ne)
  show "length (fst (batch_of tk max_len B cw k)) = B"
    "length (fst (snd (batch_of tk max_len B cw k))) = B"
    "length (snd (snd (batch_of tk max_len B cw k))) = B"
    using w by (simp_all add: batch_of_def)
qed

lemma two_threads_comments:
  assumes "dataset_loop tk no_comments [([[t1, t2]], [[m1, m2]], [[l1, l2]], x)] = Inr cw"
  shows "comment_wise_tokenized_threads cw =
     split_encoding t1 (user_token_indices tk) (eos_token_id tk) @
     split_encoding t2 (user_token_indices tk) (eos_token_id tk)"
proof -
  have "cw = thread_loop tk no_comments [(t1, m1, l1), (t2, m2, l2)]"
    using assms by simp
  then show ?thesis
    by (simp only: thread_loop_tokens) (simp add: no_comments_def)
qed

text \<open>
  C3. For a positive batch size the generator ends without an exception, emits exactly
  (number of comments div batch size) batches, each with exactly batch-size rows in each
  stream, and the k-th batch is the padding of the truncated comments
  k * batch size, ..., k * batch size + batch size - 1: the comments after the last full
  group are in no batch. In particular, for one thread batch of two threads that each
  split into 3 comments and batch size 4, there are 6 comments, one batch is emitted and
  it has 4 rows.
\<close>

theorem generator_drops_remainder:
  assumes "0 < batch_size" and "dataset_loop tk no_comments dataset = Inr cw"
  shows "(let emitted = get_comment_wise_dataset tk dataset max_len batch_size;
              B = nat batch_size
          in snd emitted = None
           \<and> length (fst emitted) = length (comment_wise_tokenized_threads cw) div B
           \<and> (\<forall>b \<in> set (fst emitted).
                 length (fst b) = B \<and> length (fst (snd b)) = B \<and> length (snd (snd b)) = B)
           \<and> (\<forall>k < length (fst emitted).
                 pad_triple tk
                   (map (py_prefix max_len)
                      (take B (drop (k * B) (comment_wise_tokenized_threads cw))))
                   (map (py_prefix max_len)
                      (take B (drop (k * B) (comment_wise_masked_threads cw))))
                   (map (py_prefix max_len)
                      (take B (drop (k * B) (comment_wise_comp_type_labels cw))))
                 = Inr (fst emitted ! k))
           \<and> (batch_size = 4 \<and> dataset = [([[t1, t2]], [[m1, m2]], [[l1, l2]], x)]
                \<and> length (split_encoding t1 (user_token_indices tk) (eos_token_id tk)) = 3
                \<and> length (split_encoding t2 (user_token_indices tk) (eos_token_id tk)) = 3
              \<longrightarrow> length (comment_wise_tokenized_threads cw) = 6
                \<and> length (fst emitted) = 1
                \<and> length (fst (hd (fst emitted))) = 4))"
proof -
  let ?B = "nat batch_size"
  let ?n = "length (comment_wise_tokenized_threads cw)"
  have B: "nat \<bar>batch_size\<bar> = ?B" "batch_size \<noteq> 0" "0 < ?B"
    using assms(1) by simp_all
  have sc: "same_count cw"
    using same_count_no_comments assms(2) by (rule dataset_loop_same_count)
  have em: "get_comment_wise_dataset tk dataset max_len batch_size =
      (map (batch_of tk max_len ?B cw) [0 ..< ?n div ?B], None)"
    using get_comment_wise_dataset_batches [OF assms(2) B(2), of max_len] by (simp only: B(1))
  have rows: "length (fst b) = ?B \<and> length (fst (snd b)) = ?B \<and> length (snd (snd b)) = ?B"
    if "b \<in> set (map (batch_of tk max_len ?B cw) [0 ..< ?n div ?B])" for b
  proof -
    from that obtain k where k: "k < ?n div ?B" and b: "b = batch_of tk max_len ?B cw k"
      by auto
    show ?thesis
      unfolding b using batch_of_full(2,3,4) [OF sc k B(3)] by blast
  qed
  have content: "pad_triple tk
       (map (py_prefix max_len) (take ?B (drop (k * ?B) (comment_wise_tokenized_threads cw))))
       (map (py_prefix max_len) (take ?B (drop (k * ?B) (comment_wise_masked_threads cw))))
       (map (py_prefix max_len) (take ?B (drop (k * ?B) (comment_wise_comp_type_labels cw))))
     = Inr (map (batch_of tk max_len ?B cw) [0 ..< ?n div ?B] ! k)"
    if "k < length (map (batch_of tk max_len ?B cw) [0 ..< ?n div ?B])" for k
  proof -
    have k: "k < ?n div ?B" using that by simp
    show ?thesis
      using batch_of_full(1) [OF sc k B(3), of tk max_len] k
      by (simp add: window_def)
  qed
  have scen: "?n = 6 \<and> length (map (batch_of tk max_len ?B cw) [0 ..< ?n div ?B]) = 1
      \<and> length (fst (hd (map (batch_of tk max_len ?B cw) [0 ..< ?n div ?B]))) = 4"
    if s: "batch_size = 4 \<and> dataset = [([[t1, t2]], [[m1, m2]], [[l1, l2]], x)]
        \<and> length (split_encoding t1 (user_token_indices tk) (eos_token_id tk)) = 3
        \<and> length (split_encoding t2 (user_token_indices tk) (eos_token_id tk)) = 3"
  proof -
    have "comment_wise_tokenized_threads cw =
       split_encoding t1 (user_token_indices tk) (eos_token_id tk) @
       split_encoding t2 (user_token_indices tk) (eos_token_id tk)"
      using assms(2) s by (intro two_threads_comments [of tk t1 t2 m1 m2 l1 l2 x]) simp
    then have n: "?n = 6" using s by simp
    have b4: "?B = 4" using s by simp
    have d: "?n div ?B = 1" unfolding n b4 by simp
    have "length (fst (batch_of tk max_len ?B cw 0)) = ?B"
      using batch_of_full(2) [OF sc _ B(3), of 0] d by simp
    then show ?thesis using n d b4 by simp
  qed
  have len: "length (map (batch_of tk max_len ?B cw) [0 ..< ?n div ?B]) = ?n div ?B"
    by simp
  show ?thesis
    unfolding Let_def em fst_conv snd_conv
    using rows content scen len by (intro conjI ballI allI impI) blast+
qed

theorem generator_drops_remainder_witness:
  "(0::int) < 4
   \<and> length (split_encoding [7, 1, 8, 3, 9, 2, 0, 0] [1, 3] 2) = 3
   \<and> length (split_encoding [5, 1, 6, 6, 3, 7, 2, 0] [1, 3] 2) = 3
   \<and> snd (get_comment_wise_dataset example_ids example_dataset 512 4) = None
   \<and> length (fst (get_comment_wise_dataset example_ids example_dataset 512 4)) = 1
   \<and> length (fst (hd (fst (get_comment_wise_dataset example_ids example_dataset 512 4)))) = 4"
proof -
  have s1: "length (split_encoding [7, 1, 8, 3, 9, 2, 0, 0] [1, 3] 2) = 3"
    and s2: "length (split_encoding [5, 1, 6, 6, 3, 7, 2, 0] [1, 3] 2) = 3"
    by code_simp+
  have pos: "(0::int) < 4" by simp
  note t = generator_drops_remainder [OF pos example_first_phase, of 512
      "[7, 1, 8, 3, 9, 2, 0, 0]" "[5, 1, 6, 6, 3, 7, 2, 0]"
      "[7, 4, 8, 3, 9, 2, 0, 0]" "[5, 1, 4, 6, 3, 7, 2, 0]"
      "[0, 0, 1, 2, 3, 4, 0, 0]" "[0, 1, 2, 0, 3, 4, 4, 0]" "()"]
  have ids: "user_token_indices example_ids = [1, 3]" "eos_token_id example_ids = 2"
    by (simp_all add: example_ids_def)
  from t show ?thesis
    unfolding Let_def ids using s1 s2 by (simp add: example_dataset_def)
qed

section \<open>The structure of the splitter's result\<close>

lemma comment_shape_snoc:
  "comment_shape split_on s \<Longrightarrow> x \<notin> set split_on \<Longrightarrow> comment_shape split_on (s @ [x])"
  by (cases s) (auto simp: comment_shape_def)

lemma append_last_comment_shape:
  "list_all (comment_shape split_on) ss \<Longrightarrow> x \<notin> set split_on \<Longrightarrow>
   list_all (comment_shape split_on) (append_last ss x)"
  by (induction ss x rule: append_last.induct) (simp_all add: comment_shape_snoc)

lemma well_split_open:
  assumes "well_split split_on ss" and "x \<in> set split_on"
  shows "well_split split_on (append_last (ss @ [[]]) x)"
proof -
  obtain f rest where ss: "ss = f # rest"
    using assms(1) by (cases ss) (auto simp: well_split_def)
  have "comment_shape split_on [x]"
    using assms(2) by (simp add: comment_shape_def)
  then show ?thesis
    unfolding append_last_snoc using assms(1) by (simp add: well_split_def ss)
qed

lemma well_split_extend:
  assumes "well_split split_on ss" and "x \<notin> set split_on"
  shows "well_split split_on (append_last ss x)"
proof -
  obtain f rest where ss: "ss = f # rest"
    using assms(1) by (cases ss) (auto simp: well_split_def)
  show ?thesis
  proof (cases rest)
    case Nil
    then show ?thesis
      using assms by (simp add: ss well_split_def)
  next
    case (Cons r rs)
    have "list_all (comment_shape split_on) (append_last (r # rs) x)"
      using assms Cons by (intro append_last_comment_shape) (simp_all add: ss well_split_def)
    then show ?thesis
      using assms(1) Cons by (simp add: ss well_split_def)
  qed
qed

lemma split_loop_well_split:
  "well_split split_on splitted \<Longrightarrow> well_split split_on (split_loop splitted xs split_on eos)"
proof (induction xs arbitrary: splitted)
  case Nil
  then show ?case by simp
next
  case (Cons x xs)
  let ?opened = "if x \<in> set split_on then splitted @ [[]] else splitted"
  have w: "well_split split_on (append_last ?opened x)"
    using Cons.prems by (simp add: well_split_open well_split_extend)
  show ?case
  proof (cases "x = eos")
    case True
    then show ?thesis using w by (simp add: Let_def)
  next
    case False
    then show ?thesis using Cons.IH [OF w] by (simp add: Let_def)
  qed
qed

text \<open>
  C7. The result of \<open>split_encoding\<close> is never empty; its first component holds no
  split sentinel; every later component begins with a split sentinel and holds no other
  one (a new component begins immediately before each sentinel, which is its first
  element); and the components together are the input up to and including the first
  terminator (scanning stops right after it). In particular the input
  [A, SENT, B, C, EOS, D] with split set {SENT} and terminator EOS, where A, B and C
  are neither SENT nor EOS, gives exactly [[A], [SENT, B, C, EOS]].
\<close>

theorem split_encoding_structure:
  "split_encoding xs split_on eos \<noteq> []
   \<and> set (hd (split_encoding xs split_on eos)) \<inter> set split_on = {}
   \<and> (\<forall>s \<in> set (tl (split_encoding xs split_on eos)).
         s \<noteq> [] \<and> hd s \<in> set split_on \<and> set (tl s) \<inter> set split_on = {})
   \<and> concat (split_encoding xs split_on eos) =
       takeWhile (\<lambda>x. x \<noteq> eos) xs @ take 1 (dropWhile (\<lambda>x. x \<noteq> eos) xs)
   \<and> (A \<notin> {SENT, EOS} \<and> B \<notin> {SENT, EOS} \<and> C \<notin> {SENT, EOS} \<and> SENT \<noteq> EOS \<longrightarrow>
        split_encoding [A, SENT, B, C, EOS, D] [SENT] EOS = [[A], [SENT, B, C, EOS]])"
proof -
  have "well_split split_on [[]]" by (simp add: well_split_def)
  then have "well_split split_on (split_encoding xs split_on eos)"
    unfolding split_encoding_def by (rule split_loop_well_split)
  then have 1: "split_encoding xs split_on eos \<noteq> []"
    and 2: "set (hd (split_encoding xs split_on eos)) \<inter> set split_on = {}"
    and 3: "\<forall>s \<in> set (tl (split_encoding xs split_on eos)).
         s \<noteq> [] \<and> hd s \<in> set split_on \<and> set (tl s) \<inter> set split_on = {}"
    by (simp_all add: well_split_def list_all_iff comment_shape_def)
  have 4: "concat (split_encoding xs split_on eos) =
       takeWhile (\<lambda>x. x \<noteq> eos) xs @ take 1 (dropWhile (\<lambda>x. x \<noteq> eos) xs)"
    by (simp add: split_encoding_def concat_split_loop upto_first_takeWhile)
  have 5: "split_encoding [A, SENT, B, C, EOS, D] [SENT] EOS = [[A], [SENT, B, C, EOS]]"
    if "A \<notin> {SENT, EOS} \<and> B \<notin> {SENT, EOS} \<and> C \<notin> {SENT, EOS} \<and> SENT \<noteq> EOS"
    using that by (simp add: split_encoding_def Let_def)
  from 1 2 3 4 5 show ?thesis by blast
qed

theorem split_encoding_structure_witness:
  "(10::int) \<notin> {1, 2} \<and> (11::int) \<notin> {1, 2} \<and> (12::int) \<notin> {1, 2} \<and> (1::int) \<noteq> 2
   \<and> split_encoding [10, 1, 11, 12, 2, 13] [1] 2 = [[10], [1, 11, 12, 2]]
   \<and> hd [1, 11, 12, 2] \<in> set [1::int]"
  using split_encoding_structure [of "[10, 1, 11, 12, 2, 13]" "[1]" 2 10 1 2 11 12 13]
  by simp


section \<open>The tag scheme and the allowed transitions\<close>

lemma config_value:
  "config = Inr \<lparr> cfg_arg_components =
        [(''O'', 0), (''B-C'', 1), (''I-C'', 2), (''B-P'', 3), (''I-P'', 4), (''B-MC'', 5), (''I-MC'', 6)],
      cfg_max_len = 512, cfg_batch_size = 4096, cfg_all_classes = True,
      cfg_pad_for_comp_type_labels = 0 \<rparr>"
  by (simp add: config_def config_of_def dict_get_def)

lemma crf_head_all_classes:
  "get_crf_head
     [(''O'', 0), (''B-C'', 1), (''I-C'', 2), (''B-P'', 3), (''I-P'', 4), (''B-MC'', 5), (''I-MC'', 6)] =
   Inr \<lparr> linear_out_features = 7, crf_num_tags = 7,
         crf_constraints = [(1, 2), (3, 4), (2, 2), (2, 1), (2, 3), (2, 0),
                            (4, 4), (4, 1), (4, 3), (4, 0), (0, 0), (0, 1), (0, 3)] \<rparr>"
  by (simp add: get_crf_head_def allowed_transitions_def append_results_def dict_get_def)

text \<open>
  C9. With \<^verbatim>\<open>all_classes\<close> true, as the configuration file sets it, the tag dictionary has
  seven tags with B-MC as 5 and I-MC as 6, the linear layer and the CRF are sized for
  seven tags, and every pair of the allowed transitions passed to the CRF is over the ids
  0 to 4: no pair mentions 5 or 6.
\<close>

theorem allowed_transitions_omit_major_claim:
  "\<exists>c head. config = Inr c
     \<and> cfg_all_classes c
     \<and> length (cfg_arg_components c) = 7
     \<and> dict_get (cfg_arg_components c) ''B-MC'' = Inr 5
     \<and> dict_get (cfg_arg_components c) ''I-MC'' = Inr 6
     \<and> get_crf_head (cfg_arg_components c) = Inr head
     \<and> linear_out_features head = 7
     \<and> crf_num_tags head = 7
     \<and> crf_constraints head \<noteq> []
     \<and> (\<forall>(a, b) \<in> set (crf_constraints head). 0 \<le> a \<and> a \<le> 4 \<and> 0 \<le> b \<and> b \<le> 4)
     \<and> (\<forall>(a, b) \<in> set (crf_constraints head). a \<noteq> 5 \<and> a \<noteq> 6 \<and> b \<noteq> 5 \<and> b \<noteq> 6)"
  by (simp add: config_value crf_head_all_classes dict_get_def)

theorem allowed_transitions_omit_major_claim_witness:
  "\<exists>c head. config = Inr c \<and> get_crf_head (cfg_arg_components c) = Inr head
     \<and> (2, 1) \<in> set (crf_constraints head) \<and> (2::int) \<le> 4 \<and> (1::int) \<le> 4
     \<and> (2::int) \<noteq> 5 \<and> (1::int) \<noteq> 6"
proof -
  from allowed_transitions_omit_major_claim obtain c head where
    c: "config = Inr c" and h: "get_crf_head (cfg_arg_components c) = Inr head"
    and r: "\<forall>(a, b) \<in> set (crf_constraints head). 0 \<le> a \<and> a \<le> 4 \<and> 0 \<le> b \<and> b \<le> 4"
    by blast
  have "(2, 1) \<in> set (crf_constraints head)"
    using c h by (auto simp: config_value crf_head_all_classes)
  then show ?thesis using c h r by auto
qed


section \<open>Properties of the loss\<close>

lemma length_cross_entropy_weight: "length cross_entropy_weight = 5"
  by (simp add: cross_entropy_weight_def)

lemma example_compute:
  "compute (example_model 5) ([[5, 6]], [[0, 0]], [[0, 0]]) False True =
     Inr (Loss (2 * (ln 3.3102 * ln 5)))"
  by (simp add: compute_def example_model_def example_ids_def cross_entropy_layer_def
      ce_token_def log_softmax_def cross_entropy_weight_def sum_list_replicate)

lemma example_normalized:
  "spec_length_normalized_loss (example_model 5) ([[5, 6]], [[0, 0]], [[0, 0]]) =
     Inr (Loss (ln 3.3102 * ln 5))"
  by (simp add: spec_length_normalized_loss_def example_model_def example_ids_def
      cross_entropy_layer_def ce_token_def log_softmax_def cross_entropy_weight_def
      sum_list_replicate)

text \<open>
  The loss that \<open>compute\<close> returns is not length-normalized: for one sequence of two
  non-pad tokens it is twice the normalized value.
\<close>

theorem compute_not_length_normalized:
  "compute (example_model 5) ([[5, 6]], [[0, 0]], [[0, 0]]) False True \<noteq>
   spec_length_normalized_loss (example_model 5) ([[5, 6]], [[0, 0]], [[0, 0]])"
proof -
  have "0 < ln (3.3102::real)" by (rule ln_gt_zero) simp
  moreover have "0 < ln (5::real)" by (rule ln_gt_zero) simp
  ultimately have "0 < ln (3.3102::real) * ln 5" by (rule mult_pos_pos)
  then have "2 * (ln 3.3102 * ln 5) \<noteq> ln (3.3102::real) * ln 5" by simp
  then show ?thesis unfolding example_compute example_normalized by simp
qed

text \<open>
  C5. The result of \<open>compute\<close>, in loss mode and in decode mode, does not depend on the
  second component of the batch: two batches with the same tokenized threads and the same
  labels give equal results. The pad mask comes from the tokens alone. This covers the
  call in \<^verbatim>\<open>train\<close>, whose second component is the masked-token indicator.
\<close>

theorem compute_ignores_second_component:
  "compute md (tokenized_threads, a, comp_type_labels) preds cross_entropy =
   compute md (tokenized_threads, b, comp_type_labels) preds cross_entropy"
  by (simp add: compute_def)


section \<open>The combined loss\<close>

lemma ce_tokens_nth:
  "ce_tokens C xs ys = Inr ls \<Longrightarrow>
   length ls = length xs \<and> length ys = length xs
   \<and> (\<forall>i < length ls. ce_token C (xs ! i) (ys ! i) = Inr (ls ! i))"
proof (induction C xs ys arbitrary: ls rule: ce_tokens.induct)
  case (1 C)
  then show ?case by simp
next
  case (2 C x xs y ys)
  from "2.prems" obtain l ls' where l: "ce_token C x y = Inr l"
    and ls': "ce_tokens C xs ys = Inr ls'" and ls: "ls = l # ls'"
    by (auto split: sum.splits)
  from "2.IH" [OF l ls'] have ih: "length ls' = length xs" "length ys = length xs"
    "\<forall>i < length ls'. ce_token C (xs ! i) (ys ! i) = Inr (ls' ! i)"
    by simp_all
  have "ce_token C ((x # xs) ! i) ((y # ys) ! i) = Inr (ls ! i)" if "i < length ls" for i
    using that l ih(3) ls by (cases i) simp_all
  then show ?case using ih(1,2) ls by simp
qed simp_all

lemma masked_sum:
  assumes "length ms = length cs"
  shows "sum_list (map2 (\<lambda>m c. real_of_int (if P m then 1 else 0) * c) ms cs) =
         (\<Sum>i \<in> {i. i < length cs \<and> P (ms ! i)}. cs ! i)"
proof -
  let ?L = "map2 (\<lambda>m c. real_of_int (if P m then 1 else 0) * c) ms cs"
  have l: "length ?L = length cs" using assms by simp
  have "sum_list ?L = (\<Sum>i = 0 ..< length cs. ?L ! i)"
    unfolding l [symmetric] by (rule sum_list_sum_nth)
  also have "\<dots> = (\<Sum>i = 0 ..< length cs. (if P (ms ! i) then cs ! i else 0))"
    using assms by (intro sum.cong) auto
  also have "\<dots> = (\<Sum>i \<in> {i \<in> {0 ..< length cs}. P (ms ! i)}. cs ! i)"
    by (rule sum.inter_filter [symmetric]) simp
  also have "{i \<in> {0 ..< length cs}. P (ms ! i)} = {i. i < length cs \<and> P (ms ! i)}"
    by auto
  finally show ?thesis .
qed

text \<open>
  C4, amended. In loss mode with the cross-entropy option, whenever the cross-entropy
  layer returns, \<open>compute\<close> returns the sum, over the non-pad positions only, of the
  per-token losses, plus the negative of the CRF log-likelihood; the per-token loss of a
  position with a label \<open>y\<close> is \<open>- weight[y] * log_softmax(scores)[y]\<close>. The sum is not
  divided by any length.
\<close>

theorem compute_combined_loss:
  assumes "pad_mask = map (map (\<lambda>t. if t \<noteq> pad_token_id (tokenizer md) then 1 else 0)) tokens"
    and "logits = encoder_logits md tokens pad_mask"
    and "cross_entropy_layer (num_tags md) (concat logits) (concat labels) = Inr ce"
    and "length ce = length (concat tokens)"
  shows "compute md (tokens, token_type_ids, labels) False True =
           Inr (Loss ((\<Sum>i \<in> {i. i < length ce \<and> concat tokens ! i \<noteq> pad_token_id (tokenizer md)}.
                          ce ! i)
                      + (- crf_log_likelihood md logits labels pad_mask)))
       \<and> (\<forall>i < length ce. 0 \<le> concat labels ! i \<longrightarrow>
             ce ! i = - (cross_entropy_weight ! nat (concat labels ! i))
                      * (concat logits ! i ! nat (concat labels ! i)
                         - ln (sum_list (map exp (concat logits ! i)))))"
proof -
  let ?pad = "pad_token_id (tokenizer md)"
  have flat: "concat pad_mask = map (\<lambda>t. if t \<noteq> ?pad then 1 else 0) (concat tokens)"
    unfolding assms(1) by (simp add: map_concat)
  have len: "length (concat pad_mask) = length ce"
    using assms(4) flat by simp
  have "sum_list (map2 (\<lambda>m c. real_of_int m * c) (concat pad_mask) ce) =
        sum_list (map2 (\<lambda>t c. real_of_int (if t \<noteq> ?pad then 1 else 0) * c) (concat tokens) ce)"
    unfolding flat by (simp add: zip_map1 o_def case_prod_unfold)
  also have "\<dots> = (\<Sum>i \<in> {i. i < length ce \<and> concat tokens ! i \<noteq> ?pad}. ce ! i)"
    using assms(4) by (intro masked_sum) simp
  finally have s: "sum_list (map2 (\<lambda>m c. real_of_int m * c) (concat pad_mask) ce) =
      (\<Sum>i \<in> {i. i < length ce \<and> concat tokens ! i \<noteq> ?pad}. ce ! i)" .
  have 1: "compute md (tokens, token_type_ids, labels) False True =
           Inr (Loss ((\<Sum>i \<in> {i. i < length ce \<and> concat tokens ! i \<noteq> ?pad}. ce ! i)
                      + (- crf_log_likelihood md logits labels pad_mask)))"
    using assms(3) len s
    by (simp add: compute_def Let_def assms(1) [symmetric] assms(2) [symmetric])
  have ct: "ce_tokens (num_tags md) (concat logits) (concat labels) = Inr ce"
    using assms(3) by (simp add: cross_entropy_layer_def split: if_splits)
  have 2: "ce ! i = - (cross_entropy_weight ! nat (concat labels ! i))
                      * (concat logits ! i ! nat (concat labels ! i)
                         - ln (sum_list (map exp (concat logits ! i))))"
    if "i < length ce" "0 \<le> concat labels ! i" for i
  proof -
    have "ce_token (num_tags md) (concat logits ! i) (concat labels ! i) = Inr (ce ! i)"
      using ce_tokens_nth [OF ct] that(1) by simp
    then show ?thesis
      using that(2) by (simp add: ce_token_def log_softmax_def split: if_splits)
  qed
  from 1 2 show ?thesis by blast
qed

theorem compute_combined_loss_witness:
  "cross_entropy_layer (num_tags (example_model 5))
      (concat (encoder_logits (example_model 5) [[5, 6, 0]] [[1, 1, 0]])) (concat [[1, 0, 0]])
     = Inr [ln 61.4809 * ln 5, ln 3.3102 * ln 5, ln 3.3102 * ln 5]
   \<and> compute (example_model 5) ([[5, 6, 0]], [[0, 0, 0]], [[1, 0, 0]]) False True =
       Inr (Loss (ln 61.4809 * ln 5 + ln 3.3102 * ln 5))"
proof -
  let ?ce = "[ln 61.4809 * ln 5, ln 3.3102 * ln 5, ln 3.3102 * ln 5] :: real list"
  have pm: "[[1, 1, 0]] = map (map (\<lambda>t. if t \<noteq> pad_token_id (tokenizer (example_model 5))
      then 1 else 0)) [[5, 6, 0 :: int]]"
    by (simp add: example_model_def example_ids_def)
  have ce: "cross_entropy_layer (num_tags (example_model 5))
      (concat (encoder_logits (example_model 5) [[5, 6, 0]] [[1, 1, 0]])) (concat [[1, 0, 0]])
     = Inr ?ce"
    by (simp add: example_model_def cross_entropy_layer_def ce_token_def log_softmax_def
        cross_entropy_weight_def sum_list_replicate)
  have set: "{i. i < length ?ce \<and> concat [[5, 6, 0 :: int]] ! i \<noteq>
      pad_token_id (tokenizer (example_model 5))} = {0, 1}"
    by (auto simp: example_model_def example_ids_def nth_Cons' less_Suc_eq)
  have ll: "crf_log_likelihood (example_model 5) l a b = 0" for l a b
    by (simp add: example_model_def)
  from compute_combined_loss [OF pm refl ce, of "[[0, 0, 0]]"]
  have "compute (example_model 5) ([[5, 6, 0]], [[0, 0, 0]], [[1, 0, 0]]) False True =
       Inr (Loss (ln 61.4809 * ln 5 + ln 3.3102 * ln 5))"
    unfolding set ll by simp
  with ce show ?thesis by simp
qed

text \<open>
  With a number of tags other than five the weight of the cross-entropy layer does not
  fit the scores, and the combined loss fails for every batch.
\<close>

lemma combined_loss_fails_for_every_batch:
  "num_tags md \<noteq> 5 \<Longrightarrow> compute md batch False True = Inl RuntimeError"
  by (cases batch)
     (simp add: compute_def Let_def cross_entropy_layer_def length_cross_entropy_weight)

text \<open>
  C10. The weight of the cross-entropy layer has five entries and the configuration with
  \<^verbatim>\<open>all_classes\<close> true has seven tags; with seven tags for the linear layer and the CRF,
  \<open>compute\<close> with the cross-entropy option raises an error for every batch whose labels
  include 5 or 6.
\<close>

theorem combined_loss_fails_with_major_claim_labels:
  "length cross_entropy_weight = 5
   \<and> (\<exists>c. config = Inr c \<and> length (cfg_arg_components c) = 7
        \<and> (num_tags md = length (cfg_arg_components c)
            \<and> (5 \<in> set (concat labels) \<or> 6 \<in> set (concat labels))
           \<longrightarrow> compute md (tokens, token_type_ids, labels) False True = Inl RuntimeError))"
proof -
  have "compute md (tokens, token_type_ids, labels) False True = Inl RuntimeError"
    if "num_tags md = 7"
    using that by (intro combined_loss_fails_for_every_batch) simp
  then show ?thesis
    by (simp add: length_cross_entropy_weight config_value)
qed

theorem combined_loss_fails_with_major_claim_labels_witness:
  "num_tags (example_model 7) = 7
   \<and> (5::int) \<in> set (concat [[1, 5]])
   \<and> compute (example_model 7) ([[8, 9]], [[0, 0]], [[1, 5]]) False True = Inl RuntimeError"
proof -
  have n: "num_tags (example_model 7) = 7" by (simp add: example_model_def)
  have l: "(5::int) \<in> set (concat [[1, 5]])" by simp
  from combined_loss_fails_with_major_claim_labels
    [of "example_model 7" "[[1, 5]]" "[[8, 9]]" "[[0, 0]]"]
  show ?thesis using n l by (auto simp: config_value)
qed


section \<open>The training loop's schedule\<close>

lemma train_loop_events:
  "list_all2 (\<lambda>b l. forward_loss md b = Inr l) batches losses \<Longrightarrow>
   train_loop md B 4 i batches = (concat (map (batch_events B) (enumerate i losses)), None)"
proof (induction batches losses arbitrary: i rule: list_all2_induct)
  case Nil
  then show ?case by simp
next
  case (Cons b batches l losses)
  show ?case
    using Cons.hyps(1) Cons.IH [of "Suc i"] by (simp add: batch_events_def)
qed

lemma steps_of_batch_events:
  "length (filter (\<lambda>e. e = Step) (concat (map (batch_events B) ps))) =
   length (filter (\<lambda>p. fst p mod 4 = 3) ps)"
  by (induction ps) (simp_all add: batch_events_def)

lemma every_fourth:
  "length (filter (\<lambda>p. fst p mod 4 = 3) (enumerate 0 (ls :: 'a list))) = length ls div 4"
proof (induction ls rule: rev_induct)
  case Nil
  then show ?case by simp
next
  case (snoc l ls)
  have "Suc (length ls) div 4 = length ls div 4 + (if length ls mod 4 = 3 then 1 else 0)"
    by presburger
  then show ?case
    using snoc by (simp add: enumerate_append_eq)
qed

text \<open>
  C8. When the generator ends without an exception and every forward pass returns a
  loss, the run of \<^verbatim>\<open>train\<close> is: one reset of the gradients; for the batch with counter
  \<open>i\<close> (from 0) the back-propagation of its loss divided by the configured batch-size
  constant, followed by an optimizer step and a reset exactly when \<open>i mod 4 = 3\<close>, that
  is after every 4th batch; and one last optimizer step after the loop, whatever the
  number of batches. The optimizer steps \<open>length batches div 4 + 1\<close> times.
\<close>

theorem train_schedule:
  assumes "data_config_batch_size \<noteq> 0"
    and "get_comment_wise_dataset (tokenizer md) dataset 512 8 = (batches, None)"
    and "list_all2 (\<lambda>b l. forward_loss md b = Inr l) batches losses"
  shows "train md data_config_batch_size dataset =
           (ZeroGrad #
            concat (map (\<lambda>(i, l). Backward (l / real_of_int data_config_batch_size) #
                                   (if i mod 4 = 3 then [Step, ZeroGrad] else []))
                        (enumerate 0 losses))
            @ [Step], None)
       \<and> length (filter (\<lambda>e. e = Step) (fst (train md data_config_batch_size dataset))) =
           length batches div 4 + 1
       \<and> last (fst (train md data_config_batch_size dataset)) = Step"
proof -
  let ?B = data_config_batch_size
  have be: "batch_events ?B = (\<lambda>(i, l). Backward (l / real_of_int ?B) #
                                   (if i mod 4 = 3 then [Step, ZeroGrad] else []))"
    by (rule ext) (simp add: batch_events_def case_prod_unfold)
  have loop: "train_loop md ?B 4 0 batches =
      (concat (map (batch_events ?B) (enumerate 0 losses)), None)"
    using assms(3) by (rule train_loop_events)
  have tr: "train md ?B dataset =
      (ZeroGrad # concat (map (batch_events ?B) (enumerate 0 losses)) @ [Step], None)"
    by (simp add: train_def assms(2) loop)
  have len: "length losses = length batches"
    using assms(3) by (simp add: list_all2_lengthD)
  have cnt: "length (filter (\<lambda>e. e = Step) (fst (train md ?B dataset))) = length batches div 4 + 1"
    unfolding tr by (simp add: steps_of_batch_events every_fourth len)
  have lst: "last (fst (train md ?B dataset)) = Step"
    unfolding tr by simp
  from tr cnt lst show ?thesis unfolding be by blast
qed

lemma train_example_batches:
  "get_comment_wise_dataset (tokenizer (example_model 5)) train_example 512 8 =
     (replicate 5 (replicate 8 [7], replicate 8 [7], replicate 8 [0]), None)"
  by code_simp

lemma train_example_loss:
  "forward_loss (example_model 5) (replicate 8 [7], replicate 8 [7], replicate 8 [0]) =
     Inr (8 * (ln 3.3102 * ln 5))"
  by (simp add: forward_loss_def to_tensor_def compute_def example_model_def example_ids_def
      cross_entropy_layer_def ce_token_def log_softmax_def cross_entropy_weight_def
      sum_list_replicate numeral_eq_Suc)

theorem train_schedule_witness:
  "(4096::int) \<noteq> 0
   \<and> train (example_model 5) 4096 train_example =
       ([ZeroGrad,
         Backward (8 * (ln 3.3102 * ln 5) / 4096), Backward (8 * (ln 3.3102 * ln 5) / 4096),
         Backward (8 * (ln 3.3102 * ln 5) / 4096), Backward (8 * (ln 3.3102 * ln 5) / 4096),
         Step, ZeroGrad,
         Backward (8 * (ln 3.3102 * ln 5) / 4096),
         Step], None)"
proof -
  have nz: "(4096::int) \<noteq> 0" by simp
  have l: "list_all2 (\<lambda>b l. forward_loss (example_model 5) b = Inr l)
      (replicate 5 (replicate 8 [7], replicate 8 [7], replicate 8 [0]))
      (replicate 5 (8 * (ln 3.3102 * ln 5)))"
    by (simp add: list_all2_conv_all_nth train_example_loss)
  have e: "enumerate 0 (replicate 5 x) = [(0, x), (1, x), (2, x), (3, x), (4, x)]" for x :: real
    by (simp add: numeral_eq_Suc)
  from train_schedule [OF nz train_example_batches l]
  show ?thesis unfolding e by simp
qed


end
